theory Spec2Isabelle
  imports
    Complex_Main
    "HOL-Library.Char_ord"
    "HOL-Library.List_Lexorder"
    "HOL-Library.Log_Nat"
    "HOL-Library.AList"
    "HOL-Library.Multiset"
begin

section \<open>JavaScript values used by the dashboard\<close>

text \<open>
  The booth dashboard (\<^verbatim>\<open>frontend/app.js\<close>) works on JSON documents. A JavaScript number is
  modelled as a rational; where the code computes with numbers (\<^verbatim>\<open>+\<close>, \<^verbatim>\<open>/\<close>, \<^verbatim>\<open>*\<close>, \<^verbatim>\<open>-\<close>
  on vote totals and swings) every operation is followed by the rounding function \<open>fl\<close> of
  the runtime, which is a parameter of the model: the identity gives exact arithmetic,
  \<open>round_double\<close> below gives IEEE 754 binary64 as every JavaScript engine implements it.
  Comparisons of numbers are exact in both. A field of a booth that is absent from the
  document, or \<^verbatim>\<open>null\<close>, is \<open>None\<close>: the code tests such fields for truthiness or reads
  them with \<^verbatim>\<open>?.\<close>, which treat the two alike. For the averages of an area and of the
  document's summary, which the code compares with \<^verbatim>\<open>undefined\<close>, \<open>None\<close> is a property that
  has not been assigned.
\<close>

type_synonym number = rat

datatype jsval = JUndefined | JNum number | JStr string | JObject

datatype js_error = TypeError | HttpError | NetworkError | SyntaxError

text \<open>\<^verbatim>\<open>!!v\<close> for an optional number: absent and 0 are falsy.\<close>

definition truthy :: "number option \<Rightarrow> bool" where
  "truthy v = (case v of None \<Rightarrow> False | Some x \<Rightarrow> x \<noteq> 0)"

text \<open>\<^verbatim>\<open>v || d\<close> for an optional number.\<close>

definition num_or :: "number option \<Rightarrow> number \<Rightarrow> number" where
  "num_or v d = (case v of None \<Rightarrow> d | Some x \<Rightarrow> if x = 0 then d else x)"

text \<open>\<^verbatim>\<open>s || d\<close> for an optional string: absent and the empty string are falsy.\<close>

definition str_or :: "string option \<Rightarrow> string \<Rightarrow> string" where
  "str_or v d = (case v of None \<Rightarrow> d | Some s \<Rightarrow> if s = [] then d else s)"

text \<open>
  A string is a list of characters: its text in an encoding that the model does not fix.
  What JavaScript does with the text of a string beyond comparing it for equality (case
  conversion, ordering by UTF-16 code unit) is done by the runtime, below.
\<close>

text \<open>\<^verbatim>\<open>s.includes(t)\<close>: \<open>t\<close> occurs in \<open>s\<close> as a contiguous run.\<close>

fun starts_with :: "string \<Rightarrow> string \<Rightarrow> bool" where
  "starts_with s [] = True"
| "starts_with [] (c # t) = False"
| "starts_with (d # s) (c # t) = (d = c \<and> starts_with s t)"

fun includes_str :: "string \<Rightarrow> string \<Rightarrow> bool" where
  "includes_str [] t = (t = [])"
| "includes_str (d # s) t = (starts_with (d # s) t \<or> includes_str s t)"

subsection \<open>Binary64 rounding\<close>

text \<open>
  Round to nearest, ties to even, with a 53-bit significand and gradual underflow. The
  numbers of the model are the finite ones: a result whose magnitude the engine rounds to
  \<^verbatim>\<open>Infinity\<close> (from \<open>2 ^ 1024 - 2 ^ 970\<close>) is outside the model, which rounds it as if the
  exponent range had no upper end.
\<close>

definition pow2 :: "int \<Rightarrow> rat" where
  "pow2 e = (if 0 \<le> e then 2 ^ nat e else 1 / 2 ^ nat (- e))"

definition round_half_even :: "rat \<Rightarrow> int" where
  "round_half_even y =
     (let f = \<lfloor>y\<rfloor>; r = y - of_int f
      in if r < 1 / 2 then f else if 1 / 2 < r then f + 1 else if even f then f else f + 1)"

definition round_double :: "rat \<Rightarrow> rat" where
  "round_double x =
     (if x = 0 then 0
      else
        let (p, q) = quotient_of \<bar>x\<bar>;
            k = bitlen p - bitlen q;
            e = (if pow2 k \<le> \<bar>x\<bar> then k else k - 1);
            ulp = pow2 (max e (- 1022) - 52)
        in sgn x * of_int (round_half_even (\<bar>x\<bar> / ulp)) * ulp)"

section \<open>Constants and data model\<close>

definition GEOHASH_PRECISION :: nat where
  "GEOHASH_PRECISION = 6"

definition ITEMS_PER_PAGE :: nat where
  "ITEMS_PER_PAGE = 50"

record comparison =
  dmk_swing :: "number option"
  aiadmk_swing :: "number option"
  turnout_change :: "number option"

text \<open>
  A booth object. The document's booths and the loaded ones have the same shape: loading
  copies the object (\<^verbatim>\<open>{...booth, ...}\<close>) and overwrites \<^verbatim>\<open>id\<close>, \<^verbatim>\<open>booth_no\<close>,
  \<^verbatim>\<open>station_no\<close> and \<^verbatim>\<open>category_simple\<close>. The field \<^verbatim>\<open>id\<close> is \<open>id'\<close> here.
\<close>

record booth =
  id' :: nat
  booth_no :: jsval
  station_no :: jsval
  village :: "string option"
  building :: "string option"
  lat :: "number option"
  lng :: "number option"
  dmk_votes :: "number option"
  aiadmk_votes :: "number option"
  others_votes :: "number option"
  winner :: "string option"
  margin_pct :: "number option"
  comparison :: "comparison option"
  category_simple :: string

section \<open>The runtime and the geohash library\<close>

text \<open>
  Functions the script calls but does not define, as parameters of the model:
  \<^item> the global \<^verbatim>\<open>geohash\<close> object (\<^verbatim>\<open>encode\<close>, \<^verbatim>\<open>decode_bbox\<close>);
  \<^item> \<^verbatim>\<open>parseInt\<close> (\<open>None\<close> is \<^verbatim>\<open>NaN\<close>) and the conversion of a number to its decimal string;
  \<^item> the rounding of arithmetic results;
  \<^item> \<^verbatim>\<open>String.prototype.toUpperCase\<close> and \<^verbatim>\<open>toLowerCase\<close> on a string that is not empty
    (the Unicode case conversions), and the UTF-16 code units of a string, by which
    \<^verbatim>\<open><\<close> and \<^verbatim>\<open>>\<close> order strings;
  \<^item> the order in which \<^verbatim>\<open>Array.prototype.sort\<close> leaves an array when its comparator is not
    a consistent ordering: a rank for every position of the array.
\<close>

record env =
  geohash_encode :: "number \<Rightarrow> number \<Rightarrow> nat \<Rightarrow> string"
  geohash_decode_bbox :: "string \<Rightarrow> number list"
  parseInt :: "jsval \<Rightarrow> number option"
  numToString :: "number \<Rightarrow> string"
  fl :: "number \<Rightarrow> number"
  upper_case :: "string \<Rightarrow> string"
  lower_case :: "string \<Rightarrow> string"
  code_units :: "string \<Rightarrow> nat list"
  engine_rank :: "(booth \<Rightarrow> booth \<Rightarrow> int) \<Rightarrow> booth list \<Rightarrow> nat \<Rightarrow> nat"

text \<open>
  \<^verbatim>\<open>s.toUpperCase()\<close> and \<^verbatim>\<open>s.toLowerCase()\<close>: the empty string converts to itself, every
  other string as the runtime converts it.
\<close>

definition toUpperCase :: "env \<Rightarrow> string \<Rightarrow> string" where
  "toUpperCase rt s = (if s = [] then [] else upper_case rt s)"

definition toLowerCase :: "env \<Rightarrow> string \<Rightarrow> string" where
  "toLowerCase rt s = (if s = [] then [] else lower_case rt s)"

section \<open>Category simplification\<close>

text \<open>\<^verbatim>\<open>simplifyCategory(booth)\<close>, lines 312-322.\<close>

definition simplifyCategory :: "env \<Rightarrow> booth \<Rightarrow> string" where
  "simplifyCategory rt b =
     (let winner = str_or (map_option (toUpperCase rt) (winner b)) [];
          marginPct = num_or (margin_pct b) 0
      in if 10 < marginPct then
           (if winner = ''DMK'' then ''strong-dmk''
            else if winner = ''AIADMK'' \<or> winner = ''ADMK'' then ''strong-admk''
            else ''swing'')
         else ''swing'')"

text \<open>
  The callback of \<^verbatim>\<open>currentConstituency.booths.map\<close> in \<^verbatim>\<open>loadConstituency\<close>, lines
  241-258, which repeats the categorisation inline.
\<close>

definition process_booth :: "env \<Rightarrow> nat \<Rightarrow> booth \<Rightarrow> booth" where
  "process_booth rt index b =
     (let winner = str_or (map_option (toUpperCase rt) (winner b)) [];
          marginPct = num_or (margin_pct b) 0;
          category_simple0 = ''swing'';
          category_simple1 =
            (if 10 < marginPct then
               (if winner = ''DMK'' then ''strong-dmk''
                else if winner = ''AIADMK'' \<or> winner = ''ADMK'' then ''strong-admk''
                else category_simple0)
             else category_simple0)
      in b\<lparr>id' := index,
           booth_no := JNum (num_or (parseInt rt (booth_no b)) (of_nat index + 1)),
           station_no := JNum (num_or (parseInt rt (station_no b)) 0),
           category_simple := category_simple1\<rparr>)"

text \<open>\<^verbatim>\<open>Array.prototype.map\<close> with the element's index.\<close>

fun map_index :: "(nat \<Rightarrow> 'a \<Rightarrow> 'b) \<Rightarrow> nat \<Rightarrow> 'a list \<Rightarrow> 'b list" where
  "map_index f i [] = []"
| "map_index f i (x # xs) = f i x # map_index f (Suc i) xs"

definition process_booths :: "env \<Rightarrow> booth list \<Rightarrow> booth list" where
  "process_booths rt bs = map_index (process_booth rt) 0 bs"

section \<open>Geohash areas\<close>

text \<open>
  A value of the \<^verbatim>\<open>geohashAreas\<close> map. The vote totals \<^verbatim>\<open>area.dmk_votes\<close>,
  \<^verbatim>\<open>area.aiadmk_votes\<close> and \<^verbatim>\<open>area.others_votes\<close> carry the suffix \<open>_area\<close> to keep
  them apart from the booth's fields. A property that has not been assigned reads
  \<^verbatim>\<open>undefined\<close>, which is \<open>None\<close>; no statement of the script assigns
  \<^verbatim>\<open>avg_turnout_change\<close>.
\<close>

record area =
  hash :: string
  booths :: "booth list"
  dmk_votes_area :: number
  aiadmk_votes_area :: number
  others_votes_area :: number
  bounds :: "number list"
  category :: "string option"
  avg_dmk_swing :: "number option"
  avg_aiadmk_swing :: "number option"
  avg_turnout_change :: "number option"

text \<open>
  The map itself is a JavaScript \<^verbatim>\<open>Map\<close>, which iterates in insertion order: an association
  list with distinct keys, where \<^verbatim>\<open>set\<close> on a new key appends (\<^const>\<open>AList.update\<close>).
\<close>

type_synonym area_map = "(string \<times> area) list"

definition new_area :: "env \<Rightarrow> string \<Rightarrow> area" where
  "new_area rt h = \<lparr>hash = h, booths = [], dmk_votes_area = 0, aiadmk_votes_area = 0,
     others_votes_area = 0, bounds = geohash_decode_bbox rt h, category = None,
     avg_dmk_swing = None, avg_aiadmk_swing = None, avg_turnout_change = None\<rparr>"

text \<open>
  The first \<^verbatim>\<open>forEach\<close> callback of \<^verbatim>\<open>computeGeohashAreas\<close>, lines 339-360: a booth whose
  \<^verbatim>\<open>lat\<close> or \<^verbatim>\<open>lng\<close> is falsy is skipped; otherwise its area is created on first sight
  (lines 344-353), and the booth is pushed and its votes are added (lines 355-359).
\<close>

definition push_booth :: "env \<Rightarrow> booth \<Rightarrow> area \<Rightarrow> area" where
  "push_booth rt b a =
     a\<lparr>booths := booths a @ [b],
       dmk_votes_area := fl rt (dmk_votes_area a + num_or (dmk_votes b) 0),
       aiadmk_votes_area := fl rt (aiadmk_votes_area a + num_or (aiadmk_votes b) 0),
       others_votes_area := fl rt (others_votes_area a + num_or (others_votes b) 0)\<rparr>"

definition bucket_booth :: "env \<Rightarrow> area_map \<Rightarrow> booth \<Rightarrow> area_map" where
  "bucket_booth rt areas b =
     (if \<not> truthy (lat b) \<or> \<not> truthy (lng b) then areas
      else
        (case (lat b, lng b) of
          (Some la, Some lo) \<Rightarrow>
            let h = geohash_encode rt la lo GEOHASH_PRECISION;
                a = (case map_of areas h of None \<Rightarrow> new_area rt h | Some a \<Rightarrow> a)
            in AList.update h (push_booth rt b a) areas
        | _ \<Rightarrow> areas))"

text \<open>The dominant category of an area, lines 364-373.\<close>

definition dominant_category :: "env \<Rightarrow> number \<Rightarrow> number \<Rightarrow> string" where
  "dominant_category rt dmk aiadmk =
     (let total = fl rt (dmk + aiadmk);
          dmkPct = (if 0 < total then fl rt (fl rt (dmk / total) * 100) else 0);
          aiadmkPct = (if 0 < total then fl rt (fl rt (aiadmk / total) * 100) else 0);
          margin = \<bar>fl rt (dmkPct - aiadmkPct)\<bar>
      in if 10 < margin then (if aiadmkPct < dmkPct then ''strong-dmk'' else ''strong-admk'')
         else ''swing'')"

text \<open>\<^verbatim>\<open>b.comparison?.dmk_swing\<close> and its siblings.\<close>

definition swing_of :: "(comparison \<Rightarrow> number option) \<Rightarrow> booth \<Rightarrow> number option" where
  "swing_of metric b = (case comparison b of None \<Rightarrow> None | Some c \<Rightarrow> metric c)"

text \<open>
  \<^verbatim>\<open>area.booths.reduce((sum, b) => sum + (b.comparison?.metric || 0), 0) / area.booths.length\<close>,
  lines 376-377. The member list of an area is never empty (\<open>area_booths_nonempty\<close> below),
  so the division is by a positive count.
\<close>

definition avg_swing :: "env \<Rightarrow> (comparison \<Rightarrow> number option) \<Rightarrow> booth list \<Rightarrow> number" where
  "avg_swing rt metric bs =
     fl rt (foldl (\<lambda>sum b. fl rt (sum + num_or (swing_of metric b) 0)) 0 bs / of_nat (length bs))"

text \<open>The second \<^verbatim>\<open>forEach\<close> callback of \<^verbatim>\<open>computeGeohashAreas\<close>, lines 363-378.\<close>

definition finish_area :: "env \<Rightarrow> area \<Rightarrow> area" where
  "finish_area rt a =
     a\<lparr>category := Some (dominant_category rt (dmk_votes_area a) (aiadmk_votes_area a)),
       avg_dmk_swing := Some (avg_swing rt dmk_swing (booths a)),
       avg_aiadmk_swing := Some (avg_swing rt aiadmk_swing (booths a))\<rparr>"

definition computeGeohashAreas :: "env \<Rightarrow> booth list \<Rightarrow> area_map" where
  "computeGeohashAreas rt allBooths =
     map (\<lambda>(h, a). (h, finish_area rt a)) (foldl (bucket_booth rt) [] allBooths)"

section \<open>Application state\<close>

record summary =
  avg_dmk_swing_summary :: "number option"
  avg_aiadmk_swing_summary :: "number option"
  avg_turnout_change_summary :: "number option"
  total_booths :: "number option"

text \<open>
  The constituency document that \<^verbatim>\<open>response.json()\<close> yields. Its \<^verbatim>\<open>booths\<close> array is the
  field \<open>booths_json\<close>; either part may be missing from the file.
\<close>

record constituency_doc =
  constituency :: string
  booths_json :: "booth list option"
  summary :: "summary option"

record sort_state =
  column :: string
  ascending :: bool

text \<open>
  A rectangle drawn on the map: the hash whose click handler it carries, and the area's
  category (its class name).
\<close>

type_synonym layer = "string \<times> string"

text \<open>The script's global variables that booth analysis reads and writes.\<close>

record app_state =
  currentConstituency :: "constituency_doc option"
  allBooths :: "booth list"
  filteredBooths :: "booth list"
  geohashAreas :: area_map
  geohashLayers :: "layer list"
  currentPage :: int
  currentSort :: sort_state
  selectedBoothId :: "nat option"
  activeFilter :: "string option"

text \<open>The values the declarations at the top of the script give them, lines 22-35.\<close>

definition initial_state :: app_state where
  "initial_state = \<lparr>currentConstituency = None, allBooths = [], filteredBooths = [],
     geohashAreas = [], geohashLayers = [], currentPage = 1,
     currentSort = \<lparr>column = ''booth_no'', ascending = True\<rparr>,
     selectedBoothId = None, activeFilter = None\<rparr>"

section \<open>Map overlay\<close>

text \<open>
  The hashes of the filtered booths, lines 388-394: a JavaScript \<^verbatim>\<open>Set\<close>, which keeps each
  hash once, in the order of first insertion.
\<close>

definition add_visible :: "env \<Rightarrow> string list \<Rightarrow> booth \<Rightarrow> string list" where
  "add_visible rt hs b =
     (if truthy (lat b) \<and> truthy (lng b) then
        (case (lat b, lng b) of
          (Some la, Some lo) \<Rightarrow>
            let h = geohash_encode rt la lo GEOHASH_PRECISION
            in if h \<in> set hs then hs else hs @ [h]
        | _ \<Rightarrow> hs)
      else hs)"

definition visibleHashes :: "env \<Rightarrow> booth list \<Rightarrow> string list" where
  "visibleHashes rt bs = foldl (add_visible rt) [] bs"

text \<open>
  The body of the \<^verbatim>\<open>visibleHashes.forEach\<close> callback for an area that exists, lines
  400-436. Drawing and the popup's wording belong to the map library; what the model
  keeps is where the callback throws: \<^verbatim>\<open>area.category.replace\<close> on a missing category,
  and, when \<^verbatim>\<open>area.avg_dmk_swing !== undefined\<close>, \<^verbatim>\<open>area.avg_turnout_change.toFixed(2)\<close>
  on a missing average.
\<close>

definition render_area :: "string \<Rightarrow> area \<Rightarrow> js_error + layer" where
  "render_area h a =
     (case category a of
        None \<Rightarrow> Inl TypeError
      | Some c \<Rightarrow>
          if avg_dmk_swing a \<noteq> None then
            (case avg_turnout_change a of
               None \<Rightarrow> Inl TypeError
             | Some t \<Rightarrow> Inr (h, c))
          else Inr (h, c))"

fun render_hashes :: "area_map \<Rightarrow> string list \<Rightarrow> layer list \<Rightarrow> layer list \<times> js_error option" where
  "render_hashes areas [] layers = (layers, None)"
| "render_hashes areas (h # hs) layers =
     (case map_of areas h of
        None \<Rightarrow> render_hashes areas hs layers
      | Some a \<Rightarrow>
          (case render_area h a of
             Inl e \<Rightarrow> (layers, Some e)
           | Inr l \<Rightarrow> render_hashes areas hs (layers @ [l])))"

text \<open>
  \<^verbatim>\<open>renderGeohashAreas()\<close>, lines 384-438: the new state and the exception that ended the
  call, if one did.
\<close>

definition renderGeohashAreas :: "env \<Rightarrow> app_state \<Rightarrow> app_state \<times> js_error option" where
  "renderGeohashAreas rt st =
     (let (layers, err) =
            render_hashes (geohashAreas st) (visibleHashes rt (filteredBooths st)) []
      in (st\<lparr>geohashLayers := layers\<rparr>, err))"

section \<open>Table: sorting and pagination\<close>

text \<open>\<^verbatim>\<open>a[col]\<close> for a booth: a column the booth does not have reads \<^verbatim>\<open>undefined\<close>.\<close>

definition opt_num :: "number option \<Rightarrow> jsval" where
  "opt_num v = (case v of None \<Rightarrow> JUndefined | Some x \<Rightarrow> JNum x)"

definition opt_str :: "string option \<Rightarrow> jsval" where
  "opt_str v = (case v of None \<Rightarrow> JUndefined | Some s \<Rightarrow> JStr s)"

definition field :: "string \<Rightarrow> booth \<Rightarrow> jsval" where
  "field col b =
     (if col = ''id'' then JNum (of_nat (id' b))
      else if col = ''booth_no'' then booth_no b
      else if col = ''station_no'' then station_no b
      else if col = ''village'' then opt_str (village b)
      else if col = ''building'' then opt_str (building b)
      else if col = ''lat'' then opt_num (lat b)
      else if col = ''lng'' then opt_num (lng b)
      else if col = ''dmk_votes'' then opt_num (dmk_votes b)
      else if col = ''aiadmk_votes'' then opt_num (aiadmk_votes b)
      else if col = ''others_votes'' then opt_num (others_votes b)
      else if col = ''winner'' then opt_str (winner b)
      else if col = ''margin_pct'' then opt_num (margin_pct b)
      else if col = ''comparison'' then (case comparison b of None \<Rightarrow> JUndefined | Some c \<Rightarrow> JObject)
      else if col = ''category_simple'' then JStr (category_simple b)
      else JUndefined)"

text \<open>\<^verbatim>\<open>String(v || '')\<close>: the falsy values are \<^verbatim>\<open>undefined\<close>, 0 and the empty string.\<close>

definition string_or_empty :: "env \<Rightarrow> jsval \<Rightarrow> string" where
  "string_or_empty rt v =
     (case v of
        JUndefined \<Rightarrow> []
      | JNum x \<Rightarrow> if x = 0 then [] else numToString rt x
      | JStr s \<Rightarrow> s
      | JObject \<Rightarrow> ''[object Object]'')"

text \<open>
  The comparator passed to \<^verbatim>\<open>sort\<close>, lines 459-476. Only the sign of its result matters
  to \<^verbatim>\<open>sort\<close>; the sign of a rounded difference of two numbers is the sign of the exact
  difference, which is what the numeric branch returns here. Strings compare by their
  code units, lexicographically.
\<close>

definition sign_of :: "number \<Rightarrow> int" where
  "sign_of q = (if q < 0 then - 1 else if 0 < q then 1 else 0)"

definition compare_values :: "env \<Rightarrow> bool \<Rightarrow> jsval \<Rightarrow> jsval \<Rightarrow> int" where
  "compare_values rt asc aVal bVal =
     (case (aVal, bVal) of
        (JNum x, JNum y) \<Rightarrow> if asc then sign_of (x - y) else sign_of (y - x)
      | _ \<Rightarrow>
          let aStr = code_units rt (toLowerCase rt (string_or_empty rt aVal));
              bStr = code_units rt (toLowerCase rt (string_or_empty rt bVal))
          in if asc then (if aStr < bStr then - 1 else if bStr < aStr then 1 else 0)
             else (if bStr < aStr then - 1 else if aStr < bStr then 1 else 0))"

definition compare_booths :: "env \<Rightarrow> sort_state \<Rightarrow> booth \<Rightarrow> booth \<Rightarrow> int" where
  "compare_booths rt srt a b =
     compare_values rt (ascending srt) (field (column srt) a) (field (column srt) b)"

text \<open>
  \<^verbatim>\<open>Array.prototype.sort(comparefn)\<close>. ECMAScript (from the 2019 edition) fixes the result
  when the comparator is a consistent comparison function for the values of the array:
  the result is in the comparator's order and stable. That result is computed by an
  insertion sort in which an element goes in front of the first later element that
  does not compare below it. When the comparator is not consistent, ECMAScript leaves
  the order to the engine: the result is the array in the order of the ranks the
  runtime gives to its positions, some permutation of the array.
\<close>

definition consistent_comparator :: "('a \<Rightarrow> 'a \<Rightarrow> int) \<Rightarrow> 'a list \<Rightarrow> bool" where
  "consistent_comparator cmp xs =
     (\<forall>a \<in> set xs. \<forall>b \<in> set xs. \<forall>c \<in> set xs.
        cmp a a = 0 \<and>
        (cmp a b = 0 \<longrightarrow> cmp b a = 0) \<and>
        (cmp a b = 0 \<and> cmp b c = 0 \<longrightarrow> cmp a c = 0) \<and>
        (cmp a b < 0 \<and> cmp b c < 0 \<longrightarrow> cmp a c < 0) \<and>
        (0 < cmp a b \<and> 0 < cmp b c \<longrightarrow> 0 < cmp a c))"

fun sort_insert :: "('a \<Rightarrow> 'a \<Rightarrow> int) \<Rightarrow> 'a \<Rightarrow> 'a list \<Rightarrow> 'a list" where
  "sort_insert cmp x [] = [x]"
| "sort_insert cmp x (y # ys) = (if cmp x y \<le> 0 then x # y # ys else y # sort_insert cmp x ys)"

definition array_sort :: "('a \<Rightarrow> 'a \<Rightarrow> int) \<Rightarrow> 'a list \<Rightarrow> 'a list" where
  "array_sort cmp xs = foldr (sort_insert cmp) xs []"

definition engine_order :: "env \<Rightarrow> (booth \<Rightarrow> booth \<Rightarrow> int) \<Rightarrow> booth list \<Rightarrow> booth list" where
  "engine_order rt cmp xs =
     map snd (sort_key fst (zip (map (engine_rank rt cmp xs) [0..<length xs]) xs))"

definition js_sort :: "env \<Rightarrow> (booth \<Rightarrow> booth \<Rightarrow> int) \<Rightarrow> booth list \<Rightarrow> booth list" where
  "js_sort rt cmp xs =
     (if consistent_comparator cmp xs then array_sort cmp xs else engine_order rt cmp xs)"

text \<open>\<^verbatim>\<open>Array.prototype.slice(start, end)\<close>, negative indices counting from the end.\<close>

definition slice :: "'a list \<Rightarrow> int \<Rightarrow> int \<Rightarrow> 'a list" where
  "slice xs start end' =
     (let len = int (length xs);
          k = (if start < 0 then max (len + start) 0 else min start len);
          final = (if end' < 0 then max (len + end') 0 else min end' len)
      in take (nat (final - k)) (drop (nat k) xs))"

text \<open>
  \<^verbatim>\<open>updatePagination(totalItems)\<close>, lines 534-540: the page count, and whether the two
  buttons are disabled. The quotient of a list length by 50 is far from the range where
  rounding could move it across an integer, so \<^verbatim>\<open>Math.ceil\<close> is taken of the exact
  quotient.
\<close>

definition totalPages :: "nat \<Rightarrow> int" where
  "totalPages totalItems = \<lceil>(of_nat totalItems :: rat) / of_nat ITEMS_PER_PAGE\<rceil>"

record pagination =
  page_info :: "int \<times> int"
  prev_disabled :: bool
  next_disabled :: bool

definition updatePagination :: "app_state \<Rightarrow> nat \<Rightarrow> pagination" where
  "updatePagination st totalItems =
     \<lparr>page_info = (currentPage st, totalPages totalItems),
      prev_disabled = (currentPage st = 1),
      next_disabled = (currentPage st = totalPages totalItems \<or> totalPages totalItems = 0)\<rparr>"

definition sorted_booths :: "env \<Rightarrow> app_state \<Rightarrow> booth list" where
  "sorted_booths rt st = js_sort rt (compare_booths rt (currentSort st)) (filteredBooths st)"

definition page_slice :: "int \<Rightarrow> 'a list \<Rightarrow> 'a list" where
  "page_slice page sorted' =
     (let start = (page - 1) * int ITEMS_PER_PAGE;
          end' = start + int ITEMS_PER_PAGE
      in slice sorted' start end')"

text \<open>
  \<^verbatim>\<open>renderTable()\<close>, lines 455-516: the rows it writes and the pagination it shows. It
  changes none of the script's variables.
\<close>

definition renderTable :: "env \<Rightarrow> app_state \<Rightarrow> booth list \<times> pagination" where
  "renderTable rt st =
     (let sorted' = sorted_booths rt st
      in (page_slice (currentPage st) sorted', updatePagination st (length sorted')))"

text \<open>The click handler of a sortable column header, lines 707-716.\<close>

definition sort_click :: "string \<Rightarrow> app_state \<Rightarrow> app_state" where
  "sort_click col st =
     (if column (currentSort st) = col
      then st\<lparr>currentSort := (currentSort st)\<lparr>ascending := \<not> ascending (currentSort st)\<rparr>\<rparr>
      else st\<lparr>currentSort := \<lparr>column = col, ascending = True\<rparr>\<rparr>)"

section \<open>Filters\<close>

text \<open>\<^verbatim>\<open>v?.toString()\<close> for a column value.\<close>

definition to_string_opt :: "env \<Rightarrow> jsval \<Rightarrow> string option" where
  "to_string_opt rt v =
     (case v of
        JUndefined \<Rightarrow> None
      | JNum x \<Rightarrow> Some (numToString rt x)
      | JStr s \<Rightarrow> Some s
      | JObject \<Rightarrow> Some ''[object Object]'')"

text \<open>\<^verbatim>\<open>s?.toLowerCase().includes(search)\<close>, falsy when \<open>s\<close> is missing.\<close>

definition opt_includes :: "env \<Rightarrow> string option \<Rightarrow> string \<Rightarrow> bool" where
  "opt_includes rt s search =
     (case s of None \<Rightarrow> False | Some t \<Rightarrow> includes_str (toLowerCase rt t) search)"

text \<open>
  The callback of \<^verbatim>\<open>allBooths.filter\<close> in \<^verbatim>\<open>applyFilters\<close>, lines 563-578. \<open>village\<close> is the
  value of the village selector and \<open>search\<close> the lower-cased search text.
\<close>

definition booth_matches :: "env \<Rightarrow> string \<Rightarrow> string option \<Rightarrow> string \<Rightarrow> booth \<Rightarrow> bool" where
  "booth_matches rt village_sel active search b =
     (if village_sel \<noteq> ''all'' \<and> village b \<noteq> Some village_sel then False
      else if str_or active [] \<noteq> [] \<and> Some (category_simple b) \<noteq> active then False
      else if search \<noteq> [] then
        (let searchMatch =
               (opt_includes rt (to_string_opt rt (booth_no b)) search \<or>
                opt_includes rt (village b) search \<or>
                opt_includes rt (building b) search)
         in if \<not> searchMatch then False else True)
      else True)"

text \<open>
  \<^verbatim>\<open>updateStats()\<close>, lines 589-612, writes only to the page; the model keeps where it
  throws: \<^verbatim>\<open>toFixed\<close> on a missing average of the summary, and \<^verbatim>\<open>.total_booths\<close> of a
  missing summary.
\<close>

definition updateStats :: "app_state \<Rightarrow> js_error option" where
  "updateStats st =
     (case currentConstituency st of
        None \<Rightarrow> None
      | Some doc \<Rightarrow>
          (case summary doc of
             None \<Rightarrow> Some TypeError
           | Some s \<Rightarrow>
               if avg_dmk_swing_summary s \<noteq> None \<and>
                  (avg_aiadmk_swing_summary s = None \<or> avg_turnout_change_summary s = None)
               then Some TypeError else None))"

text \<open>
  \<^verbatim>\<open>applyFilters()\<close>, lines 559-584, with the two inputs it reads from the page. An
  exception of \<^verbatim>\<open>renderGeohashAreas\<close> leaves the handler before \<^verbatim>\<open>updateStats\<close>.
\<close>

definition applyFilters :: "env \<Rightarrow> string \<Rightarrow> string \<Rightarrow> app_state \<Rightarrow> app_state \<times> js_error option" where
  "applyFilters rt village_value search_value st =
     (let village_sel = village_value;
          search = toLowerCase rt search_value;
          st1 = st\<lparr>filteredBooths :=
                   filter (booth_matches rt village_sel (activeFilter st) search) (allBooths st)\<rparr>;
          st2 = st1\<lparr>currentPage := 1\<rparr>;
          (st3, err) = renderGeohashAreas rt st2
      in case err of
           Some e \<Rightarrow> (st3, Some e)
         | None \<Rightarrow> (st3, updateStats st3))"

section \<open>Loading a constituency\<close>

text \<open>
  What the two awaited promises of \<^verbatim>\<open>loadConstituency\<close> deliver: the fetch is rejected, the
  response is not \<^verbatim>\<open>ok\<close>, the body is not JSON, or the body is a document.
\<close>

datatype fetch_result = Rejected | NotOk | NotJson | Body constituency_doc

text \<open>
  \<^verbatim>\<open>loadConstituency(dataFile)\<close> from the point where its promises have settled, lines
  236-289. Every exception is caught and logged by the \<^verbatim>\<open>catch\<close> at line 287; the result is
  the state left behind and the exception caught, if any. Assignments made before the
  exception stay.
\<close>

definition loadConstituency :: "env \<Rightarrow> fetch_result \<Rightarrow> app_state \<Rightarrow> app_state \<times> js_error option" where
  "loadConstituency rt response st =
     (case response of
        Rejected \<Rightarrow> (st, Some NetworkError)
      | NotOk \<Rightarrow> (st, Some HttpError)
      | NotJson \<Rightarrow> (st, Some SyntaxError)
      | Body doc \<Rightarrow>
          let st1 = st\<lparr>currentConstituency := Some doc\<rparr>
          in (case booths_json doc of
                None \<Rightarrow> (st1, Some TypeError)
              | Some bs \<Rightarrow>
                  let st2 = st1\<lparr>allBooths := process_booths rt bs\<rparr>;
                      st3 = st2\<lparr>filteredBooths := allBooths st2\<rparr>;
                      st4 = st3\<lparr>currentSort := \<lparr>column = ''booth_no'', ascending = True\<rparr>\<rparr>;
                      st5 = st4\<lparr>activeFilter := None\<rparr>;
                      st6 = st5\<lparr>geohashAreas := computeGeohashAreas rt (allBooths st5)\<rparr>
                  in (case updateStats st6 of
                        Some e \<Rightarrow> (st6, Some e)
                      | None \<Rightarrow>
                          let st7 = st6\<lparr>currentPage := 1\<rparr>
                          in renderGeohashAreas rt st7)))"

text \<open>
  Loads overlap: a call of \<^verbatim>\<open>loadConstituency\<close> runs up to its first \<^verbatim>\<open>await\<close> and touches no
  variable before both promises have settled; the rest then runs without interruption.
  A run of the page is therefore a sequence of two kinds of events: a load is requested
  and its fetch is in flight, and the promises of one load in flight settle.
\<close>

datatype event = Request nat | Settle nat fetch_result

record system =
  app :: app_state
  in_flight :: "nat list"

definition step :: "env \<Rightarrow> system \<Rightarrow> event \<Rightarrow> system" where
  "step rt sys ev =
     (case ev of
        Request n \<Rightarrow> sys\<lparr>in_flight := in_flight sys @ [n]\<rparr>
      | Settle n r \<Rightarrow>
          if n \<in> set (in_flight sys)
          then \<lparr>app = fst (loadConstituency rt r (app sys)), in_flight = remove1 n (in_flight sys)\<rparr>
          else sys)"

definition run :: "env \<Rightarrow> system \<Rightarrow> event list \<Rightarrow> system" where
  "run rt sys evs = foldl (step rt) sys evs"

section \<open>Notions used in the statements\<close>

text \<open>The test \<^verbatim>\<open>booth.lat && booth.lng\<close> that the script applies wherever it uses coordinates.\<close>

definition has_coords :: "booth \<Rightarrow> bool" where
  "has_coords b = (truthy (lat b) \<and> truthy (lng b))"

text \<open>All member booths of all areas, area by area.\<close>

definition members :: "area_map \<Rightarrow> booth list" where
  "members areas = concat (map (\<lambda>(h, a). booths a) areas)"

text \<open>The running total of one vote field over a member list, as \<^verbatim>\<open>+=\<close> accumulates it.\<close>

definition vote_total :: "env \<Rightarrow> (booth \<Rightarrow> number option) \<Rightarrow> booth list \<Rightarrow> number" where
  "vote_total rt votes bs = foldl (\<lambda>s b. fl rt (s + num_or (votes b) 0)) 0 bs"

text \<open>
  The comparator of the table sort takes its numeric branch for two numbers and compares
  lower-cased texts otherwise, by their code units. A column is homogeneous when one branch
  serves all its pairs. A list has no ties when no two of its entries compare as equal.
\<close>

definition is_num :: "jsval \<Rightarrow> bool" where
  "is_num v = (case v of JNum x \<Rightarrow> True | _ \<Rightarrow> False)"

definition homogeneous :: "string \<Rightarrow> booth list \<Rightarrow> bool" where
  "homogeneous col bs =
     ((\<forall>b \<in> set bs. is_num (field col b)) \<or> (\<forall>b \<in> set bs. \<not> is_num (field col b)))"

definition text_key :: "env \<Rightarrow> jsval \<Rightarrow> nat list" where
  "text_key rt v = code_units rt (toLowerCase rt (string_or_empty rt v))"

definition no_ties :: "('a \<Rightarrow> 'a \<Rightarrow> int) \<Rightarrow> 'a list \<Rightarrow> bool" where
  "no_ties cmp xs = (distinct xs \<and> (\<forall>a \<in> set xs. \<forall>b \<in> set xs. a \<noteq> b \<longrightarrow> cmp a b \<noteq> 0))"

text \<open>
  What holds of an entry of the map between the two passes of \<^verbatim>\<open>computeGeohashAreas\<close>:
  its totals are the running totals over its members, and nothing else has been assigned.
\<close>

definition area_ok :: "env \<Rightarrow> string \<Rightarrow> area \<Rightarrow> bool" where
  "area_ok rt h a =
     (hash a = h \<and>
      dmk_votes_area a = vote_total rt dmk_votes (booths a) \<and>
      aiadmk_votes_area a = vote_total rt aiadmk_votes (booths a) \<and>
      others_votes_area a = vote_total rt others_votes (booths a) \<and>
      category a = None \<and> avg_dmk_swing a = None \<and> avg_aiadmk_swing a = None \<and>
      avg_turnout_change a = None)"

section \<open>Sample data\<close>

text \<open>
  A runtime for evaluating examples: binary64 arithmetic, and stand-ins for the library
  functions (a one-degree grid for the geohash, integers only for \<^verbatim>\<open>parseInt\<close> and the
  number conversion, the case conversions of the ASCII letters, characters as code units,
  and the input order where the sort is left to the engine).
\<close>

definition ascii_upper :: "char \<Rightarrow> char" where
  "ascii_upper c = (let n = (of_char c :: nat) in if 97 \<le> n \<and> n \<le> 122 then char_of (n - 32) else c)"

definition ascii_lower :: "char \<Rightarrow> char" where
  "ascii_lower c = (let n = (of_char c :: nat) in if 65 \<le> n \<and> n \<le> 90 then char_of (n + 32) else c)"

definition sample_encode :: "number \<Rightarrow> number \<Rightarrow> nat \<Rightarrow> string" where
  "sample_encode la lo p = (if la < 13 then ''tf2'' else ''tf3'')"

definition sample_parseInt :: "jsval \<Rightarrow> number option" where
  "sample_parseInt v = (case v of JNum x \<Rightarrow> Some (of_int \<lfloor>x\<rfloor>) | _ \<Rightarrow> None)"

definition sample_rt :: env where
  "sample_rt = \<lparr>geohash_encode = sample_encode, geohash_decode_bbox = (\<lambda>h. []),
     parseInt = sample_parseInt, numToString = (\<lambda>x. ''n''), fl = round_double,
     upper_case = map ascii_upper, lower_case = map ascii_lower, code_units = map of_char,
     engine_rank = (\<lambda>cmp xs i. i)\<rparr>"

definition booth0 :: booth where
  "booth0 = \<lparr>id' = 0, booth_no = JUndefined, station_no = JUndefined, village = None,
     building = None, lat = None, lng = None, dmk_votes = None, aiadmk_votes = None,
     others_votes = None, winner = None, margin_pct = None, comparison = None,
     category_simple = []\<rparr>"

definition booth_a :: booth where
  "booth_a = booth0\<lparr>id' := 0, booth_no := JNum 1, village := Some ''Avadi'', lat := Some 12,
     lng := Some 79, dmk_votes := Some 55, aiadmk_votes := Some 45, winner := Some ''DMK'',
     margin_pct := Some 10, category_simple := ''swing''\<rparr>"

definition booth_b :: booth where
  "booth_b = booth0\<lparr>id' := 1, booth_no := JNum 2, village := Some ''avadi'',
     dmk_votes := Some 40, aiadmk_votes := Some 60, winner := Some ''ADMK'',
     margin_pct := Some 20, category_simple := ''strong-admk''\<rparr>"

definition sample_state :: app_state where
  "sample_state = initial_state\<lparr>allBooths := [booth_a, booth_b], filteredBooths := [booth_a, booth_b]\<rparr>"

definition booth_equator :: booth where
  "booth_equator = booth0\<lparr>lat := Some 0, lng := Some 79, dmk_votes := Some 10\<rparr>"

definition booth_c :: booth where
  "booth_c = booth0\<lparr>id' := 2, lat := Some 13, lng := Some 80, dmk_votes := Some 70,
     aiadmk_votes := Some 30,
     comparison := Some \<lparr>dmk_swing = Some 2, aiadmk_swing = Some (- 1), turnout_change = Some 3\<rparr>\<rparr>"

definition sample_summary :: summary where
  "sample_summary = \<lparr>avg_dmk_swing_summary = None, avg_aiadmk_swing_summary = None,
     avg_turnout_change_summary = None, total_booths = Some 1\<rparr>"

definition doc_old :: constituency_doc where
  "doc_old = \<lparr>constituency = ''Kanchipuram'', booths_json = Some [booth_b],
     summary = Some sample_summary\<rparr>"

definition doc_new :: constituency_doc where
  "doc_new = \<lparr>constituency = ''Uthiramerur'', booths_json = Some [], summary = Some sample_summary\<rparr>"

definition doc_no_summary :: constituency_doc where
  "doc_no_summary = \<lparr>constituency = ''Kanchipuram'', booths_json = Some [booth_b], summary = None\<rparr>"

definition sys0 :: system where
  "sys0 = \<lparr>app = initial_state, in_flight = []\<rparr>"

definition by_village :: app_state where
  "by_village = sample_state\<lparr>currentSort := \<lparr>column = ''village'', ascending = True\<rparr>\<rparr>"

text \<open>Three booths whose longitudes are missing, - 5 and 0.\<close>

definition mixed_booths :: "booth list" where
  "mixed_booths = [booth0\<lparr>id' := 0\<rparr>, booth0\<lparr>id' := 1, lng := Some (- 5)\<rparr>,
     booth0\<lparr>id' := 2, lng := Some 0\<rparr>]"

definition by_longitude :: app_state where
  "by_longitude = initial_state\<lparr>allBooths := mixed_booths, filteredBooths := mixed_booths,
     currentSort := \<lparr>column = ''lng'', ascending = False\<rparr>\<rparr>"

section \<open>Categorisation of a single booth\<close>

lemma toUpperCase_dmk: "toUpperCase sample_rt ''dmk'' = ''DMK''"
  by code_simp

lemma toUpperCase_Dmk: "toUpperCase sample_rt ''Dmk'' = ''DMK''"
  by code_simp

lemma toUpperCase_Admk: "toUpperCase sample_rt ''Admk'' = ''ADMK''"
  by code_simp

lemma toUpperCase_empty: "toUpperCase rt [] = []"
  by (simp add: toUpperCase_def)

lemma winner_normalised:
  "str_or (map_option (toUpperCase rt) w) [] =
     toUpperCase rt (case w of None \<Rightarrow> [] | Some s \<Rightarrow> s)"
  by (cases w) (simp_all add: str_or_def toUpperCase_empty)

lemma margin_defaulted:
  "num_or m 0 = (case m of None \<Rightarrow> 0 | Some x \<Rightarrow> x)"
  by (cases m) (simp_all add: num_or_def)

lemma simplifyCategory_unfold:
  "simplifyCategory rt b =
     (let w = toUpperCase rt (case winner b of None \<Rightarrow> [] | Some s \<Rightarrow> s);
          m = (case margin_pct b of None \<Rightarrow> 0 | Some x \<Rightarrow> x)
      in if 10 < m \<and> w = ''DMK'' then ''strong-dmk''
         else if 10 < m \<and> (w = ''AIADMK'' \<or> w = ''ADMK'') then ''strong-admk''
         else ''swing'')"
  unfolding simplifyCategory_def winner_normalised margin_defaulted Let_def by simp

lemma process_booth_category:
  "category_simple (process_booth rt i b) = simplifyCategory rt b"
  unfolding simplifyCategory_def process_booth_def Let_def by simp

text \<open>
  Claim C1. The category of a booth depends only on its winner label as the runtime
  upper-cases it, with an absent label read as the empty string, and on its margin
  percentage, with an absent margin read as 0: a margin strictly above 10 with the
  upper-cased winner equal to DMK gives \<^verbatim>\<open>strong-dmk\<close>, a margin strictly above 10 with
  the upper-cased winner equal to AIADMK or its alias ADMK gives \<^verbatim>\<open>strong-admk\<close>, and
  everything else, a margin of exactly 10 included, gives \<^verbatim>\<open>swing\<close>. The category
  assigned while loading is the same function.
\<close>

theorem categorize_threshold_rule:
  fixes b b' :: booth and rt :: env
  defines "w \<equiv> toUpperCase rt (case winner b of None \<Rightarrow> [] | Some s \<Rightarrow> s)"
    and "m \<equiv> (case margin_pct b of None \<Rightarrow> 0 | Some x \<Rightarrow> x)"
  shows "simplifyCategory rt b =
           (if 10 < m \<and> w = ''DMK'' then ''strong-dmk''
            else if 10 < m \<and> (w = ''AIADMK'' \<or> w = ''ADMK'') then ''strong-admk''
            else ''swing'')
         \<and> category_simple (process_booth rt i b) = simplifyCategory rt b
         \<and> (m = 10 \<longrightarrow> simplifyCategory rt b = ''swing'')
         \<and> (map_option (toUpperCase rt) (winner b) = map_option (toUpperCase rt) (winner b') \<and>
              margin_pct b = margin_pct b' \<longrightarrow> simplifyCategory rt b = simplifyCategory rt b')"
proof -
  have same: "simplifyCategory rt b = simplifyCategory rt b'"
    if "map_option (toUpperCase rt) (winner b) = map_option (toUpperCase rt) (winner b')"
      and "margin_pct b = margin_pct b'"
    using that unfolding simplifyCategory_def by simp
  show ?thesis
    unfolding w_def m_def
    using same by (simp add: simplifyCategory_unfold process_booth_category Let_def)
qed

text \<open>
  The labels \<^verbatim>\<open>dmk\<close> and \<^verbatim>\<open>Dmk\<close> are different and upper-case to the same name: at a margin
  of 15 both booths are \<^verbatim>\<open>strong-dmk\<close>, and at a margin of exactly 10 the booth is
  \<^verbatim>\<open>swing\<close>.
\<close>

theorem categorize_threshold_rule_witness:
  "map_option (toUpperCase sample_rt) (Some ''dmk'') = map_option (toUpperCase sample_rt) (Some ''Dmk'') \<and>
   simplifyCategory sample_rt (booth0\<lparr>winner := Some ''dmk'', margin_pct := Some 15\<rparr>) = ''strong-dmk'' \<and>
   simplifyCategory sample_rt
     (booth0\<lparr>winner := Some ''Dmk'', margin_pct := Some 15, village := Some ''a''\<rparr>) = ''strong-dmk'' \<and>
   category_simple (process_booth sample_rt 0 (booth0\<lparr>winner := Some ''dmk'', margin_pct := Some 15\<rparr>)) =
     ''strong-dmk'' \<and>
   simplifyCategory sample_rt (booth0\<lparr>winner := Some ''dmk'', margin_pct := Some 10\<rparr>) = ''swing''"
  using categorize_threshold_rule
    [where b = "booth0\<lparr>winner := Some ''dmk'', margin_pct := Some 15\<rparr>"
       and b' = "booth0\<lparr>winner := Some ''Dmk'', margin_pct := Some 15, village := Some ''a''\<rparr>"
       and rt = sample_rt and i = 0]
    categorize_threshold_rule
    [where b = "booth0\<lparr>winner := Some ''dmk'', margin_pct := Some 10\<rparr>"
       and b' = "booth0\<lparr>winner := Some ''dmk'', margin_pct := Some 10\<rparr>"
       and rt = sample_rt and i = 0]
  by (auto simp add: toUpperCase_dmk toUpperCase_Dmk)

text \<open>
  Whatever label the runtime upper-cases to a party's name counts as that party.
  JavaScript upper-cases the dotless i to I, so a label spelt with it is AIADMK's too.
\<close>

lemma categorize_by_normalised_label:
  assumes "winner b = Some label" "toUpperCase rt label = ''AIADMK''"
    and "margin_pct b = Some m" "10 < m"
  shows "simplifyCategory rt b = ''strong-admk''"
  using assms by (simp add: simplifyCategory_unfold)

lemma categorize_just_above_threshold:
  "simplifyCategory sample_rt (booth0\<lparr>winner := Some ''dmk'', margin_pct := Some (100001 / 10000)\<rparr>) =
     ''strong-dmk''"
  by (simp add: simplifyCategory_unfold toUpperCase_dmk)

lemma categorize_alias:
  "simplifyCategory sample_rt (booth0\<lparr>winner := Some ''Admk'', margin_pct := Some 15\<rparr>) = ''strong-admk''"
  by (simp add: simplifyCategory_unfold toUpperCase_Admk)

section \<open>Filtering\<close>

lemma renderGeohashAreas_only_layers:
  "fst (renderGeohashAreas rt st) = st\<lparr>geohashLayers := geohashLayers (fst (renderGeohashAreas rt st))\<rparr>"
  by (simp add: renderGeohashAreas_def split: prod.splits)

lemma applyFilters_filtered:
  "filteredBooths (fst (applyFilters rt v s st)) =
     filter (booth_matches rt v (activeFilter st) (toLowerCase rt s)) (allBooths st)"
  by (simp add: applyFilters_def renderGeohashAreas_def Let_def split: prod.splits option.splits)

lemma applyFilters_keeps:
  "allBooths (fst (applyFilters rt v s st)) = allBooths st"
  "activeFilter (fst (applyFilters rt v s st)) = activeFilter st"
  by (simp_all add: applyFilters_def renderGeohashAreas_def Let_def split: prod.splits option.splits)

lemma booth_matches_relaxed: "booth_matches rt ''all'' None [] b"
  by (simp add: booth_matches_def str_or_def)

text \<open>
  Claim C5. With the village selector on \<^verbatim>\<open>all\<close>, no active category filter and an empty
  search text, \<^verbatim>\<open>applyFilters\<close> keeps every booth, in the order of \<^verbatim>\<open>allBooths\<close>; and
  filtering the result of a filter again with the same settings changes nothing. Both are
  stated for the handler on the application state and for the filter callback on any list.
\<close>

theorem filter_relaxed_and_idempotent:
  "filteredBooths (fst (applyFilters rt ''all'' [] (st\<lparr>activeFilter := None\<rparr>))) = allBooths st \<and>
   filteredBooths
     (fst (applyFilters rt v s (st\<lparr>allBooths := filteredBooths (fst (applyFilters rt v s st))\<rparr>))) =
     filteredBooths (fst (applyFilters rt v s st)) \<and>
   filter (booth_matches rt v f q) (filter (booth_matches rt v f q) R) =
     filter (booth_matches rt v f q) R \<and>
   filter (booth_matches rt ''all'' None []) R = R"
  by (simp add: applyFilters_filtered booth_matches_relaxed toLowerCase_def)

theorem filter_relaxed_and_idempotent_witness:
  "filteredBooths (fst (applyFilters sample_rt ''all'' [] (sample_state\<lparr>activeFilter := None\<rparr>))) =
     [booth_a, booth_b] \<and>
   filter (booth_matches sample_rt ''Avadi'' None [])
     (filter (booth_matches sample_rt ''Avadi'' None []) [booth_a, booth_b]) = [booth_a]"
  using filter_relaxed_and_idempotent
    [where rt = sample_rt and st = sample_state and v = "''Avadi''" and s = "[]" and f = None
       and q = "[]" and R = "[booth_a, booth_b]"]
  by (simp add: sample_state_def booth_matches_def booth_a_def booth_b_def str_or_def)

section \<open>Pagination\<close>

lemma page_slice_pos:
  assumes "1 \<le> p"
  shows "page_slice p xs = take ITEMS_PER_PAGE (drop (nat (p - 1) * ITEMS_PER_PAGE) xs)"
proof -
  define s where "s = nat (p - 1) * 50"
  have start: "(p - 1) * 50 = int s"
    using assms by (simp add: s_def)
  have slice: "page_slice p xs = slice xs (int s) (int (s + 50))"
    unfolding page_slice_def ITEMS_PER_PAGE_def Let_def
    using start by simp
  have "slice xs (int s) (int (s + 50)) = take 50 (drop s xs)"
  proof (cases "s + 50 \<le> length xs")
    case True
    then have "nat (int s + 50 - int s) = 50" by simp
    with True show ?thesis by (simp add: slice_def min_def)
  next
    case False
    show ?thesis
    proof (cases "s \<le> length xs")
      case True
      with False have "nat (int (length xs) - int s) = length xs - s" "length xs - s \<le> 50"
        by simp_all
      with True False show ?thesis by (simp add: slice_def min_def)
    next
      case False
      then show ?thesis by (simp add: slice_def min_def)
    qed
  qed
  with slice show ?thesis by (simp add: s_def ITEMS_PER_PAGE_def)
qed

lemma totalPages_div: "totalPages n = int ((n + 49) div 50)"
proof -
  have "\<lceil>(of_nat n :: rat) / 50\<rceil> = \<lceil>(of_int (int n) :: rat) / of_int 50\<rceil>" by simp
  also have "\<dots> = - ((- int n) div 50)" 
    unfolding ceiling_divide_eq_div by simp
  also have "\<dots> = int ((n + 49) div 50)" by linarith
  finally show ?thesis by (simp add: totalPages_def ITEMS_PER_PAGE_def)
qed

lemma concat_pages_take:
  "concat (map (\<lambda>i. take m (drop (i * m) xs)) [0..<k]) = take (k * m) xs"
proof (induction k)
  case 0
  then show ?case by simp
next
  case (Suc k)
  have "take (Suc k * m) xs = take (k * m + m) xs"
    by (simp add: add.commute)
  also have "\<dots> = take (k * m) xs @ take m (drop (k * m) xs)"
    by (rule take_add)
  finally have "take (Suc k * m) xs = take (k * m) xs @ take m (drop (k * m) xs)" .
  with Suc show ?case by simp
qed

lemma upto_as_upt: "[1..int k] = map (\<lambda>i. int i + 1) [0..<k]"
proof (induction k)
  case 0
  then show ?case by simp
next
  case (Suc k)
  have "[1..int (Suc k)] = [1..int k] @ [int k + 1]"
    using upto_rec2[of 1 "int k + 1"] by (simp add: add.commute)
  with Suc show ?case by simp
qed

lemma concat_page_slices:
  "concat (map (\<lambda>p. page_slice p xs) [1..totalPages (length xs)]) = xs"
proof -
  define k where "k = (length xs + 49) div 50"
  have len: "length xs \<le> k * 50" unfolding k_def by linarith
  have "map (\<lambda>p. page_slice p xs) [1..int k] =
        map (\<lambda>i. take ITEMS_PER_PAGE (drop (i * ITEMS_PER_PAGE) xs)) [0..<k]"
    unfolding upto_as_upt by (simp add: page_slice_pos)
  then have "concat (map (\<lambda>p. page_slice p xs) [1..int k]) = take (k * ITEMS_PER_PAGE) xs"
    by (simp add: concat_pages_take)
  with len show ?thesis
    by (simp add: totalPages_div k_def ITEMS_PER_PAGE_def)
qed

lemma sum_page_lengths:
  "(\<Sum>p = 1..totalPages (length xs). length (page_slice p xs)) = length xs"
proof -
  have "(\<Sum>p = 1..totalPages (length xs). length (page_slice p xs)) =
        sum_list (map (\<lambda>p. length (page_slice p xs)) [1..totalPages (length xs)])"
    by (simp add: sum_list_distinct_conv_sum_set)
  also have "\<dots> = length (concat (map (\<lambda>p. page_slice p xs) [1..totalPages (length xs)]))"
    by (simp add: length_concat comp_def)
  finally show ?thesis by (simp add: concat_page_slices)
qed

lemma page_beyond_last:
  assumes "totalPages (length xs) < p"
  shows "page_slice p xs = []"
proof -
  have "0 \<le> totalPages (length xs)" by (simp add: totalPages_div)
  with assms have p: "1 \<le> p" by simp
  have "int (length xs) \<le> totalPages (length xs) * 50"
    unfolding totalPages_div by linarith
  also have "\<dots> \<le> (p - 1) * 50" using assms by simp
  finally have "int (length xs) \<le> int (nat (p - 1) * 50)" using p by simp
  then have "length xs \<le> nat (p - 1) * 50" by (simp only: of_nat_le_iff)
  then show ?thesis by (simp add: page_slice_pos[OF p] ITEMS_PER_PAGE_def)
qed

lemma mset_sort_insert: "mset (sort_insert cmp x ys) = add_mset x (mset ys)"
  by (induction ys) simp_all

lemma mset_array_sort: "mset (array_sort cmp xs) = mset xs"
  by (induction xs) (simp_all add: array_sort_def mset_sort_insert)

lemma length_array_sort: "length (array_sort cmp xs) = length xs"
  using mset_array_sort[of cmp xs] by (metis size_mset)

lemma length_js_sort: "length (js_sort rt cmp xs) = length xs"
  by (simp add: js_sort_def length_array_sort engine_order_def)

text \<open>
  Claim C4. With the page size of 50, the page count that \<^verbatim>\<open>renderTable\<close> shows is the
  ceiling of the number of filtered booths over 50; the lengths of the page slices of
  pages 1 to that count add up to the number of filtered booths; a page beyond the last
  has an empty slice; and with no booths page 1 is empty and the page count is 0.
\<close>

theorem pagination_totals:
  fixes st :: app_state and rt :: env
  defines "pages \<equiv> snd (page_info (snd (renderTable rt st)))"
    and "page \<equiv> \<lambda>p. fst (renderTable rt (st\<lparr>currentPage := p\<rparr>))"
  shows "pages = \<lceil>(of_nat (length (filteredBooths st)) :: rat) / 50\<rceil> \<and>
         (\<Sum>p = 1..pages. length (page p)) = length (filteredBooths st) \<and>
         (pages < q \<longrightarrow> page q = []) \<and>
         (filteredBooths st = [] \<longrightarrow> page 1 = [] \<and> pages = 0)"
proof -
  have sorted_same: "sorted_booths rt (st\<lparr>currentPage := p\<rparr>) = sorted_booths rt st" for p
    by (simp add: sorted_booths_def)
  have len: "length (sorted_booths rt st) = length (filteredBooths st)"
    by (simp add: sorted_booths_def length_js_sort)
  have pages: "pages = totalPages (length (sorted_booths rt st))"
    by (simp add: pages_def renderTable_def updatePagination_def Let_def)
  have page: "page p = page_slice p (sorted_booths rt st)" for p
    by (simp add: page_def renderTable_def Let_def sorted_same)
  have empty: "page 1 = [] \<and> pages = 0" if "filteredBooths st = []"
    using that len by (simp add: page pages page_slice_pos totalPages_div)
  show ?thesis
    using sum_page_lengths[of "sorted_booths rt st"] page_beyond_last[of "sorted_booths rt st" q] empty
    by (simp add: pages page len totalPages_def ITEMS_PER_PAGE_def)
qed

theorem pagination_totals_witness:
  "snd (page_info (snd (renderTable sample_rt sample_state))) = 1 \<and>
   fst (renderTable sample_rt (sample_state\<lparr>currentPage := 2\<rparr>)) = [] \<and>
   fst (renderTable sample_rt (initial_state\<lparr>currentPage := 1\<rparr>)) = [] \<and>
   snd (page_info (snd (renderTable sample_rt initial_state))) = 0"
proof -
  have "\<lceil>(1 :: rat) / 25\<rceil> = 1"
    by (rule ceiling_unique) simp_all
  then show ?thesis
    using pagination_totals[of sample_rt sample_state 2] pagination_totals[of sample_rt initial_state 2]
    by (simp add: sample_state_def initial_state_def)
qed

section \<open>Spatial bucketing\<close>

lemma bucket_booth_skip:
  "\<not> has_coords b \<Longrightarrow> bucket_booth rt areas b = areas"
  by (auto simp: bucket_booth_def has_coords_def)

lemma members_update_push:
  "mset (members (AList.update h
      (push_booth rt b (case map_of ps h of None \<Rightarrow> new_area rt h | Some a \<Rightarrow> a)) ps)) =
   add_mset b (mset (members ps))"
  by (induction ps) (auto simp: members_def push_booth_def new_area_def)

lemma bucket_booth_members:
  "mset (members (bucket_booth rt areas b)) =
     (if has_coords b then add_mset b (mset (members areas)) else mset (members areas))"
proof (cases "has_coords b")
  case False
  then show ?thesis by (simp add: bucket_booth_skip)
next
  case True
  then obtain la lo where c: "lat b = Some la" "lng b = Some lo"
    by (auto simp: has_coords_def truthy_def split: option.splits)
  show ?thesis
    using True unfolding bucket_booth_def c has_coords_def Let_def
    by (simp add: c members_update_push)
qed

lemma foldl_bucket_members:
  "mset (members (foldl (bucket_booth rt) areas bs)) = mset (members areas) + mset (filter has_coords bs)"
  by (induction bs arbitrary: areas) (simp_all add: bucket_booth_members)

lemma members_finish:
  "members (map (\<lambda>(h, a). (h, finish_area rt a)) areas) = members areas"
  by (induction areas) (auto simp: members_def finish_area_def)

lemma members_computeGeohashAreas:
  "mset (members (computeGeohashAreas rt bs)) = mset (filter has_coords bs)"
proof -
  have "members [] = []" by (simp add: members_def)
  then show ?thesis
    unfolding computeGeohashAreas_def members_finish foldl_bucket_members by simp
qed

lemma id_map_index: "map id' (map_index (process_booth rt) i bs) = [i..<i + length bs]"
proof (induction bs arbitrary: i)
  case Nil
  then show ?case by simp
next
  case (Cons b bs)
  have "[i..<i + length (b # bs)] = i # [Suc i..<Suc i + length bs]"
    by (simp add: upt_rec)
  with Cons show ?case by (simp add: process_booth_def Let_def)
qed

lemma ids_process_booths: "map id' (process_booths rt bs) = [0..<length bs]"
  by (simp add: process_booths_def id_map_index)

lemma set_update_subset: "set (AList.update h v ps) \<subseteq> insert (h, v) (set ps)"
  by (induction ps) auto

lemma area_ok_new: "area_ok rt h (new_area rt h)"
  by (simp add: area_ok_def new_area_def vote_total_def)

lemma area_ok_push: "area_ok rt h a \<Longrightarrow> area_ok rt h (push_booth rt b a)"
  by (simp add: area_ok_def push_booth_def vote_total_def)

lemma booths_push_nonempty: "booths (push_booth rt b a) \<noteq> []"
  by (simp add: push_booth_def)

lemma bucket_booth_ok:
  assumes "\<forall>(h, a) \<in> set areas. area_ok rt h a \<and> booths a \<noteq> []"
  shows "\<forall>(h, a) \<in> set (bucket_booth rt areas b). area_ok rt h a \<and> booths a \<noteq> []"
proof (cases "has_coords b")
  case False
  with assms show ?thesis by (simp add: bucket_booth_skip)
next
  case True
  then obtain la lo where c: "lat b = Some la" "lng b = Some lo"
    by (auto simp: has_coords_def truthy_def split: option.splits)
  define h where "h = geohash_encode rt la lo GEOHASH_PRECISION"
  define a0 where "a0 = (case map_of areas h of None \<Rightarrow> new_area rt h | Some a \<Rightarrow> a)"
  have a0: "area_ok rt h a0"
  proof (cases "map_of areas h")
    case None
    then show ?thesis by (simp add: a0_def area_ok_new)
  next
    case (Some a)
    then have "(h, a) \<in> set areas" by (rule map_of_SomeD)
    with assms Some show ?thesis by (auto simp: a0_def)
  qed
  have eq: "bucket_booth rt areas b = AList.update h (push_booth rt b a0) areas"
    using True unfolding a0_def h_def by (simp add: bucket_booth_def c has_coords_def Let_def)
  show ?thesis
    unfolding eq using set_update_subset[of h "push_booth rt b a0" areas] assms
      area_ok_push[OF a0] booths_push_nonempty
    by auto
qed

lemma foldl_bucket_ok:
  assumes "\<forall>(h, a) \<in> set areas. area_ok rt h a \<and> booths a \<noteq> []"
  shows "\<forall>(h, a) \<in> set (foldl (bucket_booth rt) areas bs). area_ok rt h a \<and> booths a \<noteq> []"
  using assms
proof (induction bs arbitrary: areas)
  case Nil
  then show ?case by simp
next
  case (Cons b bs)
  show ?case
    using Cons.IH[OF bucket_booth_ok[OF Cons.prems]] by simp
qed

lemma computeGeohashAreas_entries:
  assumes "(h, a) \<in> set (computeGeohashAreas rt bs)"
  shows "\<exists>a0. a = finish_area rt a0 \<and> area_ok rt h a0 \<and> booths a0 \<noteq> []"
proof -
  from assms obtain a0 where "(h, a0) \<in> set (foldl (bucket_booth rt) [] bs)" "a = finish_area rt a0"
    by (auto simp: computeGeohashAreas_def)
  moreover have "\<forall>(h, a) \<in> set (foldl (bucket_booth rt) [] bs). area_ok rt h a \<and> booths a \<noteq> []"
    by (rule foldl_bucket_ok) simp
  ultimately show ?thesis by auto
qed

lemma area_booths_nonempty:
  "(h, a) \<in> set (computeGeohashAreas rt bs) \<Longrightarrow> booths a \<noteq> []"
  by (auto dest!: computeGeohashAreas_entries simp: finish_area_def)

lemma area_category:
  assumes "(h, a) \<in> set (computeGeohashAreas rt bs)"
  shows "category a =
           Some (dominant_category rt (vote_total rt dmk_votes (booths a))
                   (vote_total rt aiadmk_votes (booths a)))"
  using computeGeohashAreas_entries[OF assms] by (auto simp: finish_area_def area_ok_def)

lemma area_averages:
  assumes "(h, a) \<in> set (computeGeohashAreas rt bs)"
  shows "avg_dmk_swing a = Some (avg_swing rt dmk_swing (booths a))"
    and "avg_aiadmk_swing a = Some (avg_swing rt aiadmk_swing (booths a))"
    and "avg_turnout_change a = None"
  using computeGeohashAreas_entries[OF assms] by (auto simp: finish_area_def area_ok_def)

lemma members_has_coords:
  "b \<in> set (members (computeGeohashAreas rt bs)) \<Longrightarrow> has_coords b \<and> b \<in> set bs"
proof -
  assume "b \<in> set (members (computeGeohashAreas rt bs))"
  then have "b \<in># mset (members (computeGeohashAreas rt bs))" by simp
  then show ?thesis unfolding members_computeGeohashAreas by simp
qed

lemma foldl_bucket_filter:
  "foldl (bucket_booth rt) areas (filter has_coords bs) = foldl (bucket_booth rt) areas bs"
  by (induction bs arbitrary: areas) (simp_all add: bucket_booth_skip)

lemma add_visible_skip: "\<not> has_coords b \<Longrightarrow> add_visible rt hs b = hs"
  by (auto simp: add_visible_def has_coords_def)

lemma foldl_visible_filter:
  "foldl (add_visible rt) hs (filter has_coords bs) = foldl (add_visible rt) hs bs"
  by (induction bs arbitrary: hs) (simp_all add: add_visible_skip)

lemma render_hashes_layers:
  "fst ` set (fst (render_hashes areas hs layers)) \<subseteq> fst ` set layers \<union> set hs"
proof (induction hs arbitrary: layers)
  case Nil
  then show ?case by simp
next
  case (Cons h hs)
  show ?case
  proof (cases "map_of areas h")
    case None
    with Cons[of layers] show ?thesis by auto
  next
    case (Some a)
    show ?thesis
    proof (cases "render_area h a")
      case (Inl e)
      with Some show ?thesis by auto
    next
      case (Inr l)
      then have "fst l = h" by (auto simp: render_area_def split: option.splits if_splits)
      with Some Inr Cons[of "layers @ [l]"] show ?thesis by auto
    qed
  qed
qed

text \<open>
  Claim C2, as amended. For the booths of a loaded constituency, the member identifiers
  over all areas are exactly the identifiers of the booths whose \<^verbatim>\<open>lat\<close> and \<^verbatim>\<open>lng\<close> are
  both truthy (present and not 0), each once; every other booth is a member of no area.
\<close>

theorem bucketing_covers_truthy_coordinates:
  fixes rt :: env and raw :: "booth list"
  defines "loaded \<equiv> process_booths rt raw"
  defines "member_ids \<equiv> map id' (members (computeGeohashAreas rt loaded))"
  shows "mset member_ids = mset (map id' (filter has_coords loaded)) \<and>
         distinct member_ids \<and>
         (\<forall>b \<in> set loaded. \<not> has_coords b \<longrightarrow> id' b \<notin> set member_ids)"
proof -
  have ids: "distinct (map id' loaded)"
    by (simp add: loaded_def ids_process_booths)
  have m: "mset member_ids = mset (map id' (filter has_coords loaded))"
    unfolding member_ids_def mset_map members_computeGeohashAreas by simp
  have d: "distinct (map id' (filter has_coords loaded))"
    using ids by (rule distinct_map_filter)
  have dm: "distinct member_ids"
    using m d by (metis mset_eq_imp_distinct_iff)
  have out: "id' b \<notin> set member_ids" if b: "b \<in> set loaded" "\<not> has_coords b" for b
  proof
    assume "id' b \<in> set member_ids"
    then have "id' b \<in> set (map id' (filter has_coords loaded))"
      using m by (metis mset_eq_setD)
    then obtain b' where b': "b' \<in> set loaded" "has_coords b'" "id' b' = id' b"
      by auto
    from ids have "inj_on id' (set loaded)" by (simp add: distinct_map)
    with b b' have "b' = b" by (auto dest: inj_onD)
    with b b' show False by simp
  qed
  from m dm out show ?thesis by blast
qed

lemma process_equator:
  "process_booths sample_rt [booth_equator] =
     [booth_equator\<lparr>booth_no := JNum 1, station_no := JNum 0, category_simple := ''swing''\<rparr>]"
  by (simp add: process_booths_def process_booth_def booth_equator_def booth0_def sample_rt_def
      sample_parseInt_def num_or_def str_or_def)

text \<open>
  As stated, with every booth that has coordinates counted as coordinate-bearing, the claim
  fails for a booth on the equator: it has both coordinates and is in no area.
\<close>

theorem bucketing_skips_zero_coordinate:
  "lat booth_equator = Some 0 \<and> lng booth_equator = Some 79 \<and>
   id' ` set (members (computeGeohashAreas sample_rt (process_booths sample_rt [booth_equator]))) \<noteq>
   id' ` set (process_booths sample_rt [booth_equator])"
  unfolding process_equator
  by (simp add: computeGeohashAreas_def bucket_booth_def truthy_def members_def
      booth_equator_def booth0_def)

theorem bucketing_covers_truthy_coordinates_witness:
  "process_booths sample_rt [booth_equator] =
     [booth_equator\<lparr>booth_no := JNum 1, station_no := JNum 0, category_simple := ''swing''\<rparr>] \<and>
   \<not> has_coords (booth_equator\<lparr>booth_no := JNum 1, station_no := JNum 0, category_simple := ''swing''\<rparr>) \<and>
   id' (booth_equator\<lparr>booth_no := JNum 1, station_no := JNum 0, category_simple := ''swing''\<rparr>) \<notin>
     set (map id' (members (computeGeohashAreas sample_rt (process_booths sample_rt [booth_equator]))))"
  using bucketing_covers_truthy_coordinates[of sample_rt "[booth_equator]"]
  unfolding process_equator
  by (simp add: has_coords_def truthy_def booth_equator_def booth0_def)

lemma computeGeohashAreas_filter:
  "computeGeohashAreas rt (filter has_coords bs) = computeGeohashAreas rt bs"
  by (simp add: computeGeohashAreas_def foldl_bucket_filter)

lemma visibleHashes_filter:
  "visibleHashes rt (filter has_coords bs) = visibleHashes rt bs"
  by (simp add: visibleHashes_def foldl_visible_filter)

lemma renderGeohashAreas_layers:
  "fst ` set (geohashLayers (fst (renderGeohashAreas rt st))) \<subseteq>
     set (visibleHashes rt (filteredBooths st))"
proof -
  obtain layers err where r:
    "render_hashes (geohashAreas st) (visibleHashes rt (filteredBooths st)) [] = (layers, err)"
    by (cases "render_hashes (geohashAreas st) (visibleHashes rt (filteredBooths st)) []")
  from render_hashes_layers[of "geohashAreas st" "visibleHashes rt (filteredBooths st)" "[]"]
  show ?thesis by (simp add: renderGeohashAreas_def r)
qed

text \<open>
  Claim C10. A booth whose \<^verbatim>\<open>lat\<close> or \<^verbatim>\<open>lng\<close> is falsy (absent, or present and 0) is
  treated as having no coordinates: bucketing and the overlay's set of visible hashes pass
  it over, so both are what they would be without such booths, no area has it as a
  member, every member of an area has both coordinates truthy, and the overlay draws only
  hashes of filtered booths with both coordinates truthy.
\<close>

theorem falsy_coordinates_excluded:
  "(\<not> truthy (lat b) \<or> \<not> truthy (lng b) \<longrightarrow>
      bucket_booth rt areas b = areas \<and> add_visible rt hs b = hs \<and>
      b \<notin> set (members (computeGeohashAreas rt bs))) \<and>
   computeGeohashAreas rt (filter has_coords bs) = computeGeohashAreas rt bs \<and>
   visibleHashes rt (filter has_coords bs) = visibleHashes rt bs \<and>
   (\<forall>m \<in> set (members (computeGeohashAreas rt bs)). truthy (lat m) \<and> truthy (lng m)) \<and>
   fst ` set (geohashLayers (fst (renderGeohashAreas rt st))) \<subseteq>
     set (visibleHashes rt (filter has_coords (filteredBooths st)))"
proof -
  have skip: "bucket_booth rt areas b = areas \<and> add_visible rt hs b = hs \<and>
      b \<notin> set (members (computeGeohashAreas rt bs))"
    if "\<not> truthy (lat b) \<or> \<not> truthy (lng b)"
  proof -
    from that have n: "\<not> has_coords b" by (simp add: has_coords_def)
    then show ?thesis
      using members_has_coords[of b rt bs] by (auto simp: bucket_booth_skip add_visible_skip)
  qed
  have mem: "\<forall>m \<in> set (members (computeGeohashAreas rt bs)). truthy (lat m) \<and> truthy (lng m)"
    using members_has_coords[of _ rt bs] by (auto simp: has_coords_def)
  show ?thesis
    using skip mem renderGeohashAreas_layers[of rt st]
    by (simp add: computeGeohashAreas_filter visibleHashes_filter)
qed

lemma sample_rt_fields:
  "fl sample_rt = round_double"
  "geohash_encode sample_rt = sample_encode"
  "geohash_decode_bbox sample_rt = (\<lambda>h. [])"
  "parseInt sample_rt = sample_parseInt"
  by (simp_all add: sample_rt_def)

lemma booth_a_fields:
  "lat booth_a = Some 12" "lng booth_a = Some 79" "dmk_votes booth_a = Some 55"
  "aiadmk_votes booth_a = Some 45" "others_votes booth_a = None" "comparison booth_a = None"
  by (simp_all add: booth_a_def booth0_def)

lemma booth_c_fields:
  "lat booth_c = Some 13" "lng booth_c = Some 80" "dmk_votes booth_c = Some 70"
  "aiadmk_votes booth_c = Some 30" "others_votes booth_c = None"
  "comparison booth_c = Some \<lparr>dmk_swing = Some 2, aiadmk_swing = Some (- 1), turnout_change = Some 3\<rparr>"
  by (simp_all add: booth_c_def booth0_def)

lemma booth_equator_fields:
  "lat booth_equator = Some 0" "lng booth_equator = Some 79"
  by (simp_all add: booth_equator_def booth0_def)

lemma has_coords_samples:
  "\<not> has_coords booth_equator" "has_coords booth_a" "has_coords booth_c"
  by (simp_all add: has_coords_def truthy_def booth_equator_fields booth_a_fields booth_c_fields)

theorem falsy_coordinates_excluded_witness:
  "lat booth_equator = Some 0 \<and> \<not> truthy (lat booth_equator) \<and>
   bucket_booth sample_rt [] booth_equator = [] \<and>
   add_visible sample_rt [] booth_equator = [] \<and>
   visibleHashes sample_rt [booth_equator, booth_a] = [''tf2''] \<and>
   computeGeohashAreas sample_rt [booth_equator, booth_a] = computeGeohashAreas sample_rt [booth_a]"
proof -
  have v: "visibleHashes sample_rt [booth_a] = [''tf2'']"
    by (simp add: visibleHashes_def add_visible_def truthy_def booth_a_fields sample_rt_fields
        sample_encode_def)
  show ?thesis
    using falsy_coordinates_excluded
      [of booth_equator sample_rt "[]" "[]" "[booth_equator, booth_a]" initial_state]
    by (simp add: has_coords_samples v booth_equator_fields truthy_def)
qed

section \<open>Dominant category of an area\<close>

lemma vote_total_exact:
  assumes "fl rt = (\<lambda>x. x)"
  shows "vote_total rt votes bs = (\<Sum>b\<leftarrow>bs. num_or (votes b) 0)"
proof -
  have "foldl (\<lambda>s b. s + num_or (votes b) 0) acc bs = acc + (\<Sum>b\<leftarrow>bs. num_or (votes b) 0)" for acc
    by (induction bs arbitrary: acc) simp_all
  from this[of 0] show ?thesis by (simp add: vote_total_def assms)
qed

lemma dominant_category_rule:
  assumes "fl rt 0 = 0"
  shows "dominant_category rt dmk aiadmk =
     (let total = fl rt (dmk + aiadmk);
          dmkPct = fl rt (fl rt (dmk / total) * 100);
          aiadmkPct = fl rt (fl rt (aiadmk / total) * 100);
          margin = \<bar>fl rt (dmkPct - aiadmkPct)\<bar>
      in if 0 < total \<and> 10 < margin
         then (if aiadmkPct < dmkPct then ''strong-dmk'' else ''strong-admk'')
         else ''swing'')"
  using assms by (simp add: dominant_category_def Let_def)

lemma dominant_category_exact:
  assumes "fl rt = (\<lambda>x. x)"
  shows "dominant_category rt dmk aiadmk =
     (let total = dmk + aiadmk;
          margin = \<bar>dmk / total * 100 - aiadmk / total * 100\<bar>
      in if 0 < total \<and> 10 < margin
         then (if aiadmk < dmk then ''strong-dmk'' else ''strong-admk'')
         else ''swing'')"
proof (cases "0 < dmk + aiadmk")
  case False
  then show ?thesis by (simp add: dominant_category_def Let_def assms)
next
  case True
  then have "aiadmk / (dmk + aiadmk) * 100 < dmk / (dmk + aiadmk) * 100 \<longleftrightarrow> aiadmk < dmk"
    by (simp add: divide_less_cancel)
  with True show ?thesis by (simp add: dominant_category_def Let_def assms)
qed

text \<open>
  The category of every area is computed from the area's own totals of DMK and AIADMK
  votes over its members, the other votes playing no part: the two percentage shares of
  the two-party total and their difference are taken as the runtime computes them, each
  sum, quotient, product and difference rounded by \<open>fl\<close>.
\<close>

lemma area_category_computed:
  assumes "fl rt 0 = 0" and "(h, a) \<in> set (computeGeohashAreas rt bs)"
  shows "category a =
     Some (let dmk = vote_total rt dmk_votes (booths a);
               aiadmk = vote_total rt aiadmk_votes (booths a);
               total = fl rt (dmk + aiadmk);
               dmkPct = fl rt (fl rt (dmk / total) * 100);
               aiadmkPct = fl rt (fl rt (aiadmk / total) * 100);
               margin = \<bar>fl rt (dmkPct - aiadmkPct)\<bar>
           in if 0 < total \<and> 10 < margin
              then (if aiadmkPct < dmkPct then ''strong-dmk'' else ''strong-admk'')
              else ''swing'')"
  using area_category[of h a rt bs] assms(2)
  by (simp add: dominant_category_rule[OF assms(1)] Let_def)

text \<open>
  Were the arithmetic exact, this would be the strictly-greater-than-10 rule on the exact
  margin of the two shares, with a margin of exactly 10 swing.
\<close>

lemma area_category_exact_arithmetic:
  assumes "fl rt = (\<lambda>x. x)" and "(h, a) \<in> set (computeGeohashAreas rt bs)"
  shows "category a =
     Some (let dmk = (\<Sum>b\<leftarrow>booths a. num_or (dmk_votes b) 0);
               aiadmk = (\<Sum>b\<leftarrow>booths a. num_or (aiadmk_votes b) 0);
               total = dmk + aiadmk;
               margin = \<bar>dmk / total * 100 - aiadmk / total * 100\<bar>
           in if 0 < total \<and> 10 < margin
              then (if aiadmk < dmk then ''strong-dmk'' else ''strong-admk'')
              else ''swing'')"
  using area_category[of h a rt bs] assms(2)
  by (simp add: dominant_category_exact[OF assms(1)] vote_total_exact[OF assms(1)] Let_def)

lemma dominant_55_45_exact_arithmetic:
  assumes "fl rt = (\<lambda>x. x)"
  shows "dominant_category rt 55 45 = ''swing''"
  by (simp add: dominant_category_exact[OF assms])

subsection \<open>The area of a single booth with 55 votes against 45\<close>

lemma round_double_zero: "round_double 0 = 0"
  by (simp add: round_double_def)

text \<open>The double nearest to one tenth, \<^verbatim>\<open>0x3FB999999999999A\<close>, as a check of the rounding.\<close>

lemma round_double_tenth: "round_double (1 / 10) = 3602879701896397 / 36028797018963968"
  by code_simp

lemma round_double_55: "round_double 55 = 55"
  by code_simp

lemma round_double_45: "round_double 45 = 45"
  by code_simp

lemma dominant_category_steps:
  assumes "fl rt (dmk + aiadmk) = tot" "0 < tot"
    and "fl rt (dmk / tot) = qd" "fl rt (qd * 100) = dmkPct"
    and "fl rt (aiadmk / tot) = qa" "fl rt (qa * 100) = aiadmkPct"
    and "fl rt (dmkPct - aiadmkPct) = m" "10 < \<bar>m\<bar>" "aiadmkPct < dmkPct"
  shows "dominant_category rt dmk aiadmk = ''strong-dmk''"
  by (simp add: dominant_category_def Let_def assms)

text \<open>
  In binary64, 55 / 100 rounds up, and its product with 100 rounds to the double above
  55; 45 / 100 times 100 rounds to 45. The computed margin is the double above 10.
\<close>

lemma dominant_55_45: "dominant_category sample_rt 55 45 = ''strong-dmk''"
proof (rule dominant_category_steps)
  show "fl sample_rt (55 + 45) = 100"
    unfolding sample_rt_fields by code_simp
  show "(0 :: rat) < 100" by simp
  show "fl sample_rt (55 / 100) = 2476979795053773 / 4503599627370496"
    unfolding sample_rt_fields by code_simp
  show "fl sample_rt (2476979795053773 / 4503599627370496 * 100) = 7740561859543041 / 140737488355328"
    unfolding sample_rt_fields by code_simp
  show "fl sample_rt (45 / 100) = 8106479329266893 / 18014398509481984"
    unfolding sample_rt_fields by code_simp
  show "fl sample_rt (8106479329266893 / 18014398509481984 * 100) = 45"
    unfolding sample_rt_fields by code_simp
  show "fl sample_rt (7740561859543041 / 140737488355328 - 45) = 1407374883553281 / 140737488355328"
    unfolding sample_rt_fields by code_simp
  show "10 < \<bar>1407374883553281 / 140737488355328 :: rat\<bar>" by simp
  show "(45 :: rat) < 7740561859543041 / 140737488355328" by simp
qed

lemma sample_areas_a:
  "map (\<lambda>(h, a). (h, booths a, dmk_votes_area a, aiadmk_votes_area a, category a))
     (computeGeohashAreas sample_rt [booth_a]) =
   [(''tf2'', [booth_a], 55, 45, Some ''strong-dmk'')]"
  by (simp add: computeGeohashAreas_def bucket_booth_def booth_a_fields truthy_def Let_def
      sample_rt_fields sample_encode_def push_booth_def new_area_def finish_area_def num_or_def
      round_double_55 round_double_45 dominant_55_45)

text \<open>
  Claim C6. The category of an area is meant to be the strictly-greater-than-10 rule on
  the area's own totals, a margin of exactly 10 being swing; the comparison in the code is
  the same strict one as in the booth categorisation. On an area whose totals are 55 and
  45 the code does otherwise: the margin of the two shares is exactly 10, the booth that
  makes up the area is itself swing, and the area comes out strong for DMK, because the
  share of 55 in 100 times 100 is computed as the double above 55.
\<close>

theorem area_exact_ten_is_strong:
  "map (dmk_votes_area \<circ> snd) (computeGeohashAreas sample_rt [booth_a]) = [55] \<and>
   map (aiadmk_votes_area \<circ> snd) (computeGeohashAreas sample_rt [booth_a]) = [45] \<and>
   \<bar>(55 :: rat) / (55 + 45) * 100 - 45 / (55 + 45) * 100\<bar> = 10 \<and>
   margin_pct booth_a = Some 10 \<and> simplifyCategory sample_rt booth_a = ''swing'' \<and>
   map (category \<circ> snd) (computeGeohashAreas sample_rt [booth_a]) = [Some ''strong-dmk'']"
proof -
  obtain a where a: "computeGeohashAreas sample_rt [booth_a] = [(''tf2'', a)]"
    "dmk_votes_area a = 55" "aiadmk_votes_area a = 45" "category a = Some ''strong-dmk''"
    using sample_areas_a by (cases "computeGeohashAreas sample_rt [booth_a]") auto
  have m: "margin_pct booth_a = Some 10"
    by (simp add: booth_a_def booth0_def)
  then have "simplifyCategory sample_rt booth_a = ''swing''"
    by (simp add: simplifyCategory_unfold)
  with a m show ?thesis by simp
qed

section \<open>Swing averages of an area\<close>

lemma avg_swing_exact:
  assumes "fl rt = (\<lambda>x. x)"
  shows "avg_swing rt metric bs = (\<Sum>b\<leftarrow>bs. num_or (swing_of metric b) 0) / of_nat (length bs)"
proof -
  have "foldl (\<lambda>s b. s + num_or (swing_of metric b) 0) acc bs =
        acc + (\<Sum>b\<leftarrow>bs. num_or (swing_of metric b) 0)" for acc
    by (induction bs arbitrary: acc) simp_all
  from this[of 0] show ?thesis by (simp add: avg_swing_def assms)
qed

text \<open>
  The two party swings are averaged as the specification says: the sum over all members,
  a missing swing counting 0, divided by the number of members.
\<close>

lemma party_swing_averages:
  assumes "(h, a) \<in> set (computeGeohashAreas rt bs)" "fl rt = (\<lambda>x. x)"
  shows "avg_dmk_swing a =
           Some ((\<Sum>b\<leftarrow>booths a. num_or (swing_of dmk_swing b) 0) / of_nat (length (booths a)))"
    and "avg_aiadmk_swing a =
           Some ((\<Sum>b\<leftarrow>booths a. num_or (swing_of aiadmk_swing b) 0) / of_nat (length (booths a)))"
    and "booths a \<noteq> []"
  using area_averages[OF assms(1)] area_booths_nonempty[OF assms(1)]
  by (simp_all add: avg_swing_exact[OF assms(2)])

lemma sample_areas_c:
  "map (\<lambda>(h, a). (h, booths a, avg_turnout_change a)) (computeGeohashAreas sample_rt [booth_c]) =
   [(''tf3'', [booth_c], None)]"
  by (simp add: computeGeohashAreas_def bucket_booth_def booth_c_fields truthy_def Let_def
      sample_rt_fields sample_encode_def push_booth_def new_area_def finish_area_def)

text \<open>
  Claim C7 on the code. The booth has comparison data with a turnout change of 3. Its
  area gets no average turnout change at all, and drawing the area ends in the
  \<^verbatim>\<open>TypeError\<close> of \<^verbatim>\<open>area.avg_turnout_change.toFixed(2)\<close>.
\<close>

theorem turnout_average_missing:
  "swing_of turnout_change booth_c = Some 3 \<and>
   map (avg_turnout_change \<circ> snd) (computeGeohashAreas sample_rt [booth_c]) = [None] \<and>
   snd (renderGeohashAreas sample_rt
          (initial_state\<lparr>allBooths := [booth_c], filteredBooths := [booth_c],
             geohashAreas := computeGeohashAreas sample_rt [booth_c]\<rparr>)) = Some TypeError"
proof -
  obtain a where a: "computeGeohashAreas sample_rt [booth_c] = [(''tf3'', a)]"
    "avg_turnout_change a = None"
    using sample_areas_c by (cases "computeGeohashAreas sample_rt [booth_c]") auto
  have "(''tf3'', a) \<in> set (computeGeohashAreas sample_rt [booth_c])" by (simp add: a)
  from area_averages(1)[OF this] area_category[OF this]
  have r: "render_area ''tf3'' a = Inl TypeError"
    by (simp add: render_area_def a)
  have v: "visibleHashes sample_rt [booth_c] = [''tf3'']"
    by (simp add: visibleHashes_def add_visible_def truthy_def booth_c_fields sample_rt_fields
        sample_encode_def)
  have "snd (renderGeohashAreas sample_rt
          (initial_state\<lparr>allBooths := [booth_c], filteredBooths := [booth_c],
             geohashAreas := computeGeohashAreas sample_rt [booth_c]\<rparr>)) = Some TypeError"
    by (simp add: renderGeohashAreas_def v a r)
  then show ?thesis
    by (simp add: a swing_of_def booth_c_fields)
qed

section \<open>Loading: failures and overlapping loads\<close>

lemma renderGeohashAreas_keeps:
  "currentConstituency (fst (renderGeohashAreas rt st)) = currentConstituency st"
  "allBooths (fst (renderGeohashAreas rt st)) = allBooths st"
  "filteredBooths (fst (renderGeohashAreas rt st)) = filteredBooths st"
  "geohashAreas (fst (renderGeohashAreas rt st)) = geohashAreas st"
  "currentPage (fst (renderGeohashAreas rt st)) = currentPage st"
  "currentSort (fst (renderGeohashAreas rt st)) = currentSort st"
  "selectedBoothId (fst (renderGeohashAreas rt st)) = selectedBoothId st"
  "activeFilter (fst (renderGeohashAreas rt st)) = activeFilter st"
  by (simp_all add: renderGeohashAreas_def split: prod.splits)

lemma load_failed_fetch:
  assumes "response = Rejected \<or> response = NotOk \<or> response = NotJson"
  shows "fst (loadConstituency rt response st) = st" "snd (loadConstituency rt response st) \<noteq> None"
  using assms by (auto simp: loadConstituency_def)

lemma load_no_booths:
  assumes "booths_json doc = None"
  shows "loadConstituency rt (Body doc) st = (st\<lparr>currentConstituency := Some doc\<rparr>, Some TypeError)"
  using assms by (simp add: loadConstituency_def)

lemma load_document:
  fixes rt :: env and st :: app_state
  assumes "booths_json doc = Some bs"
  defines "st' \<equiv> fst (loadConstituency rt (Body doc) st)"
  shows "currentConstituency st' = Some doc"
    and "allBooths st' = process_booths rt bs"
    and "filteredBooths st' = process_booths rt bs"
    and "geohashAreas st' = computeGeohashAreas rt (process_booths rt bs)"
    and "currentSort st' = \<lparr>column = ''booth_no'', ascending = True\<rparr>"
    and "activeFilter st' = None"
    and "selectedBoothId st' = selectedBoothId st"
  unfolding st'_def using assms(1)
  by (simp_all add: loadConstituency_def Let_def renderGeohashAreas_keeps split: option.splits)

lemma load_current_constituency:
  "currentConstituency (fst (loadConstituency rt (Body doc) st)) = Some doc"
  by (cases "booths_json doc") (simp_all add: load_no_booths load_document)

lemma load_summary_missing:
  assumes "booths_json doc = Some bs" "summary doc = None"
  shows "snd (loadConstituency rt (Body doc) st) = Some TypeError"
    and "currentPage (fst (loadConstituency rt (Body doc) st)) = currentPage st"
  using assms by (simp_all add: loadConstituency_def Let_def updateStats_def)

text \<open>
  Claim C8, as amended. A load whose fetch fails (the request is rejected, the response is
  not OK, or the body is not JSON) is not applied at all: the record set and every derived
  variable stay exactly as they were. Once the body is parsed, the document replaces the
  current constituency at once; a document without a booth list leaves everything else
  as it was.
\<close>

theorem failed_fetch_keeps_state:
  "(response = Rejected \<or> response = NotOk \<or> response = NotJson \<longrightarrow>
      fst (loadConstituency rt response st) = st \<and>
      snd (loadConstituency rt response st) \<noteq> None) \<and>
   currentConstituency (fst (loadConstituency rt (Body doc) st)) = Some doc \<and>
   (booths_json doc = None \<longrightarrow>
      loadConstituency rt (Body doc) st = (st\<lparr>currentConstituency := Some doc\<rparr>, Some TypeError))"
  using load_failed_fetch[of response rt st] load_no_booths[of doc rt st]
  by (simp add: load_current_constituency)

theorem failed_fetch_keeps_state_witness:
  "loadConstituency sample_rt NotOk sample_state = (sample_state, Some HttpError) \<and>
   booths_json (doc_old\<lparr>booths_json := None\<rparr>) = None \<and>
   loadConstituency sample_rt (Body (doc_old\<lparr>booths_json := None\<rparr>)) sample_state =
     (sample_state\<lparr>currentConstituency := Some (doc_old\<lparr>booths_json := None\<rparr>)\<rparr>, Some TypeError)"
  using failed_fetch_keeps_state[of NotOk sample_rt sample_state "doc_old\<lparr>booths_json := None\<rparr>"]
  by (simp add: loadConstituency_def)

text \<open>
  As stated, the claim fails for a load that fails while the document is processed: the
  fetched document has booths but no summary, \<^verbatim>\<open>updateStats\<close> throws, and the record set
  has been replaced while the page number has not been reset.
\<close>

theorem failed_processing_is_partly_applied:
  "snd (loadConstituency sample_rt (Body doc_no_summary) (sample_state\<lparr>currentPage := 3\<rparr>)) =
     Some TypeError \<and>
   length (allBooths (sample_state\<lparr>currentPage := 3\<rparr>)) = 2 \<and>
   length (allBooths (fst (loadConstituency sample_rt (Body doc_no_summary)
      (sample_state\<lparr>currentPage := 3\<rparr>)))) = 1 \<and>
   currentPage (fst (loadConstituency sample_rt (Body doc_no_summary)
      (sample_state\<lparr>currentPage := 3\<rparr>))) = 3"
proof -
  have d: "booths_json doc_no_summary = Some [booth_b]" "summary doc_no_summary = None"
    by (simp_all add: doc_no_summary_def)
  show ?thesis
    by (simp add: load_summary_missing[OF d] load_document(2)[OF d(1)] process_booths_def
        sample_state_def)
qed

subsection \<open>Overlapping loads\<close>

lemma run_snoc: "run rt sys (evs @ [ev]) = step rt (run rt sys evs) ev"
  by (simp add: run_def)

text \<open>
  Claim C9, as amended. Nothing guards against a stale completion. Whenever the promises
  of a load in flight settle, that load is applied, whatever was requested or has settled
  before. With a document that has a booth list, the document becomes the current
  constituency, and that load's record set, filtered set, sort state, category filter and
  areas replace the current ones. With a document that has no booth list, the document
  becomes the current constituency and everything else stays as it was, so that the
  constituency and the records may then belong to different loads. A load whose fetch
  fails changes nothing.
\<close>

theorem settled_load_is_applied:
  "n \<in> set (in_flight (run rt sys evs)) \<longrightarrow>
     (booths_json doc = Some bs \<longrightarrow>
        (let st' = app (run rt sys (evs @ [Settle n (Body doc)]))
         in currentConstituency st' = Some doc \<and>
            allBooths st' = process_booths rt bs \<and>
            filteredBooths st' = process_booths rt bs \<and>
            geohashAreas st' = computeGeohashAreas rt (process_booths rt bs) \<and>
            currentSort st' = \<lparr>column = ''booth_no'', ascending = True\<rparr> \<and>
            activeFilter st' = None)) \<and>
     (booths_json doc = None \<longrightarrow>
        app (run rt sys (evs @ [Settle n (Body doc)])) =
          (app (run rt sys evs))\<lparr>currentConstituency := Some doc\<rparr>) \<and>
     (r = Rejected \<or> r = NotOk \<or> r = NotJson \<longrightarrow>
        app (run rt sys (evs @ [Settle n r])) = app (run rt sys evs))"
  using load_failed_fetch(1)[of r rt "app (run rt sys evs)"]
    load_no_booths[of doc rt "app (run rt sys evs)"]
  by (auto simp: run_snoc step_def Let_def load_document)

lemma in_flight_sample:
  "in_flight (run sample_rt sys0 [Request 1, Request 2, Settle 2 (Body doc_new)]) = [1]"
  by (simp add: run_def step_def sys0_def)

lemma in_flight_sample_older_first:
  "in_flight (run sample_rt sys0 [Request 1, Request 2, Settle 1 (Body doc_old)]) = [2]"
  by (simp add: run_def step_def sys0_def)

theorem settled_load_is_applied_witness:
  "1 \<in> set (in_flight (run sample_rt sys0 [Request 1, Request 2, Settle 2 (Body doc_new)])) \<and>
   booths_json doc_old = Some [booth_b] \<and>
   allBooths (app (run sample_rt sys0
     ([Request 1, Request 2, Settle 2 (Body doc_new)] @ [Settle 1 (Body doc_old)]))) =
     process_booths sample_rt [booth_b] \<and>
   app (run sample_rt sys0 ([Request 1, Request 2, Settle 2 (Body doc_new)] @ [Settle 1 Rejected])) =
     app (run sample_rt sys0 [Request 1, Request 2, Settle 2 (Body doc_new)]) \<and>
   2 \<in> set (in_flight (run sample_rt sys0 [Request 1, Request 2, Settle 1 (Body doc_old)])) \<and>
   booths_json (doc_new\<lparr>booths_json := None\<rparr>) = None \<and>
   app (run sample_rt sys0 ([Request 1, Request 2, Settle 1 (Body doc_old)] @
          [Settle 2 (Body (doc_new\<lparr>booths_json := None\<rparr>))])) =
     (app (run sample_rt sys0 [Request 1, Request 2, Settle 1 (Body doc_old)]))
       \<lparr>currentConstituency := Some (doc_new\<lparr>booths_json := None\<rparr>)\<rparr>"
proof -
  have i: "1 \<in> set (in_flight (run sample_rt sys0 [Request 1, Request 2, Settle 2 (Body doc_new)]))"
    unfolding in_flight_sample by simp
  have o: "booths_json doc_old = Some [booth_b]"
    by (simp add: doc_old_def)
  have i': "2 \<in> set (in_flight (run sample_rt sys0 [Request 1, Request 2, Settle 1 (Body doc_old)]))"
    unfolding in_flight_sample_older_first by simp
  have o': "booths_json (doc_new\<lparr>booths_json := None\<rparr>) = None"
    by simp
  show ?thesis
    using settled_load_is_applied
      [of 1 sample_rt sys0 "[Request 1, Request 2, Settle 2 (Body doc_new)]" doc_old "[booth_b]"
        Rejected]
      settled_load_is_applied
      [of 2 sample_rt sys0 "[Request 1, Request 2, Settle 1 (Body doc_old)]"
        "doc_new\<lparr>booths_json := None\<rparr>" "[]" NotOk]
      i o i' o'
    unfolding Let_def by blast
qed

text \<open>
  After two overlapping loads of which the second delivers a document without a booth
  list, the current constituency is the second document and the records are the first's.
\<close>

lemma constituency_and_records_of_different_loads:
  "map_option constituency (currentConstituency (app (run sample_rt sys0
      [Request 1, Request 2, Settle 1 (Body doc_old), Settle 2 (Body (doc_new\<lparr>booths_json := None\<rparr>))]))) =
     Some ''Uthiramerur'' \<and>
   allBooths (app (run sample_rt sys0
      [Request 1, Request 2, Settle 1 (Body doc_old), Settle 2 (Body (doc_new\<lparr>booths_json := None\<rparr>))])) =
     process_booths sample_rt [booth_b]"
proof -
  have o: "booths_json doc_old = Some [booth_b]" by (simp add: doc_old_def)
  have first: "run sample_rt sys0 [Request 1, Request 2, Settle 1 (Body doc_old)] =
      \<lparr>app = fst (loadConstituency sample_rt (Body doc_old) initial_state), in_flight = [2]\<rparr>"
    by (simp add: run_def step_def sys0_def)
  have last: "run sample_rt sys0
        [Request 1, Request 2, Settle 1 (Body doc_old), Settle 2 (Body (doc_new\<lparr>booths_json := None\<rparr>))] =
      step sample_rt (run sample_rt sys0 [Request 1, Request 2, Settle 1 (Body doc_old)])
        (Settle 2 (Body (doc_new\<lparr>booths_json := None\<rparr>)))"
    using run_snoc[of sample_rt sys0 "[Request 1, Request 2, Settle 1 (Body doc_old)]"] by simp
  show ?thesis
    unfolding last unfolding first
    by (simp add: step_def load_no_booths load_document(2)[OF o] doc_new_def)
qed

text \<open>
  As stated, the claim fails when the older of two overlapping loads settles last: load 2,
  requested after load 1, delivers a document with no booths and settles first; load 1
  then settles, and the state is that of the older load.
\<close>

theorem stale_load_overwrites_newer:
  "booths_json doc_new = Some [] \<and>
   allBooths (app (run sample_rt sys0 [Request 1, Request 2, Settle 2 (Body doc_new)])) = [] \<and>
   currentConstituency (app (run sample_rt sys0
     [Request 1, Request 2, Settle 2 (Body doc_new), Settle 1 (Body doc_old)])) = Some doc_old \<and>
   length (allBooths (app (run sample_rt sys0
     [Request 1, Request 2, Settle 2 (Body doc_new), Settle 1 (Body doc_old)]))) = 1"
proof -
  have n: "booths_json doc_new = Some []" by (simp add: doc_new_def)
  have o: "booths_json doc_old = Some [booth_b]" by (simp add: doc_old_def)
  have first: "run sample_rt sys0 [Request 1, Request 2, Settle 2 (Body doc_new)] =
      \<lparr>app = fst (loadConstituency sample_rt (Body doc_new) initial_state), in_flight = [1]\<rparr>"
    by (simp add: run_def step_def sys0_def)
  have last: "run sample_rt sys0 [Request 1, Request 2, Settle 2 (Body doc_new), Settle 1 (Body doc_old)] =
      step sample_rt (run sample_rt sys0 [Request 1, Request 2, Settle 2 (Body doc_new)])
        (Settle 1 (Body doc_old))"
    using run_snoc[of sample_rt sys0 "[Request 1, Request 2, Settle 2 (Body doc_new)]"] by simp
  show ?thesis
    unfolding last unfolding first
    by (simp add: n step_def load_current_constituency load_document(2)[OF o]
        load_document(2)[OF n] process_booths_def)
qed

section \<open>Table sort\<close>

subsection \<open>The sort routine\<close>

lemma set_sort_insert: "set (sort_insert cmp x ys) = insert x (set ys)"
  by (induction ys) auto

lemma set_array_sort: "set (array_sort cmp xs) = set xs"
  using mset_array_sort[of cmp xs] by (metis set_mset_mset)

lemma mset_engine_order: "mset (engine_order rt cmp xs) = mset xs"
proof -
  have "mset (map snd (sort_key fst zs)) = mset (map snd zs)" for zs :: "(nat \<times> booth) list"
    by (metis mset_map mset_sort)
  moreover have "map snd (zip (map (engine_rank rt cmp xs) [0..<length xs]) xs) = xs"
    by (rule map_snd_zip) simp
  ultimately show ?thesis unfolding engine_order_def by metis
qed

text \<open>Whatever the comparator, the sorted array is a permutation of the array.\<close>

lemma mset_js_sort: "mset (js_sort rt cmp xs) = mset xs"
  by (simp add: js_sort_def mset_array_sort mset_engine_order)

lemma filter_sort_insert:
  assumes "\<And>y. y \<in> set ys \<Longrightarrow> P x \<Longrightarrow> P y \<Longrightarrow> cmp x y \<le> 0"
  shows "filter P (sort_insert cmp x ys) = (if P x then x # filter P ys else filter P ys)"
  using assms by (induction ys) auto

lemma array_sort_stable:
  assumes "\<And>x y. x \<in> set xs \<Longrightarrow> y \<in> set xs \<Longrightarrow> P x \<Longrightarrow> P y \<Longrightarrow> cmp x y \<le> 0"
  shows "filter P (array_sort cmp xs) = filter P xs"
  using assms
proof (induction xs)
  case Nil
  then show ?case by (simp add: array_sort_def)
next
  case (Cons x xs)
  have "filter P (array_sort cmp (x # xs)) = filter P (sort_insert cmp x (array_sort cmp xs))"
    by (simp add: array_sort_def)
  also have "\<dots> = (if P x then x # filter P (array_sort cmp xs) else filter P (array_sort cmp xs))"
    by (rule filter_sort_insert) (use Cons.prems in \<open>simp add: set_array_sort\<close>)
  also have "filter P (array_sort cmp xs) = filter P xs"
    using Cons.prems by (intro Cons.IH) simp
  finally show ?case by simp
qed

text \<open>
  A consistent comparator is a total preorder on the entries of the array: of two entries
  one is below or equal to the other, and below-or-equal is transitive.
\<close>

lemma consistent_comparatorD:
  assumes "consistent_comparator cmp xs" and "a \<in> set xs" "b \<in> set xs" "c \<in> set xs"
  shows "cmp a a = 0"
    and "cmp a b = 0 \<Longrightarrow> cmp b a = 0"
    and "cmp a b = 0 \<Longrightarrow> cmp b c = 0 \<Longrightarrow> cmp a c = 0"
    and "cmp a b < 0 \<Longrightarrow> cmp b c < 0 \<Longrightarrow> cmp a c < 0"
    and "0 < cmp a b \<Longrightarrow> 0 < cmp b c \<Longrightarrow> 0 < cmp a c"
  using assms unfolding consistent_comparator_def by blast+

lemma consistent_opposite:
  assumes c: "consistent_comparator cmp xs" and a: "a \<in> set xs" and b: "b \<in> set xs"
  shows "0 < cmp a b \<Longrightarrow> cmp b a < 0" and "cmp a b < 0 \<Longrightarrow> 0 < cmp b a"
proof -
  have refl: "cmp a a = 0" by (rule consistent_comparatorD(1)[OF c a a a])
  have sym: "cmp b a = 0 \<Longrightarrow> cmp a b = 0" by (rule consistent_comparatorD(2)[OF c b a a])
  have lt: "cmp a b < 0 \<Longrightarrow> cmp b a < 0 \<Longrightarrow> cmp a a < 0"
    by (rule consistent_comparatorD(4)[OF c a b a])
  have gt: "0 < cmp a b \<Longrightarrow> 0 < cmp b a \<Longrightarrow> 0 < cmp a a"
    by (rule consistent_comparatorD(5)[OF c a b a])
  show "cmp b a < 0" if "0 < cmp a b"
    using that refl sym gt by (cases "cmp b a = 0"; cases "0 < cmp b a") auto
  show "0 < cmp b a" if "cmp a b < 0"
    using that refl sym lt by (cases "cmp b a = 0"; cases "cmp b a < 0") auto
qed

lemma consistent_total:
  assumes c: "consistent_comparator cmp xs" and a: "a \<in> set xs" and b: "b \<in> set xs"
  shows "cmp a b \<le> 0 \<or> cmp b a \<le> 0"
  using consistent_opposite(1)[OF c a b] by fastforce

lemma consistent_trans:
  assumes c: "consistent_comparator cmp xs"
    and a: "a \<in> set xs" and b: "b \<in> set xs" and d: "d \<in> set xs"
    and ab: "cmp a b \<le> 0" and bd: "cmp b d \<le> 0"
  shows "cmp a d \<le> 0"
proof (rule ccontr)
  assume "\<not> cmp a d \<le> 0"
  then have ad: "0 < cmp a d" by simp
  then have da: "cmp d a < 0" by (rule consistent_opposite(1)[OF c a d])
  show False
  proof (cases "cmp a b = 0")
    case True
    show False
    proof (cases "cmp b d = 0")
      case True
      with \<open>cmp a b = 0\<close> have "cmp a d = 0" by (rule consistent_comparatorD(3)[OF c a b d])
      with ad show False by simp
    next
      case False
      with bd have "cmp b d < 0" by simp
      then have "cmp b a < 0" using da by (rule consistent_comparatorD(4)[OF c b d a])
      moreover from True have "cmp b a = 0" by (rule consistent_comparatorD(2)[OF c a b a])
      ultimately show False by simp
    qed
  next
    case False
    with ab have "cmp a b < 0" by simp
    with da have "cmp d b < 0" by (rule consistent_comparatorD(4)[OF c d a b])
    then have "0 < cmp b d" by (rule consistent_opposite(2)[OF c d b])
    with bd show False by simp
  qed
qed

lemma sorted_wrt_sort_insert:
  assumes tot: "\<And>y. y \<in> set ys \<Longrightarrow> cmp x y \<le> 0 \<or> cmp y x \<le> 0"
    and trans: "\<And>y z. y \<in> set ys \<Longrightarrow> z \<in> set ys \<Longrightarrow> cmp x y \<le> 0 \<Longrightarrow> cmp y z \<le> 0 \<Longrightarrow> cmp x z \<le> 0"
    and srt: "sorted_wrt (\<lambda>a b. cmp a b \<le> 0) ys"
  shows "sorted_wrt (\<lambda>a b. cmp a b \<le> 0) (sort_insert cmp x ys)"
  using assms
proof (induction ys)
  case Nil
  then show ?case by simp
next
  case (Cons y ys)
  show ?case
  proof (cases "cmp x y \<le> 0")
    case True
    have "cmp x z \<le> 0" if "z \<in> set ys" for z
      using True Cons.prems(2)[of y z] Cons.prems(3) that by auto
    with True Cons.prems(3) show ?thesis by simp
  next
    case False
    with Cons.prems(1)[of y] have yx: "cmp y x \<le> 0" by simp
    have "sorted_wrt (\<lambda>a b. cmp a b \<le> 0) (sort_insert cmp x ys)"
      using Cons.prems by (intro Cons.IH) auto
    with False yx Cons.prems(3) show ?thesis by (simp add: set_sort_insert)
  qed
qed

lemma sorted_wrt_array_sort:
  assumes "consistent_comparator cmp xs"
  shows "sorted_wrt (\<lambda>a b. cmp a b \<le> 0) (array_sort cmp xs)"
proof -
  have "sorted_wrt (\<lambda>a b. cmp a b \<le> 0) (array_sort cmp ys)" if "set ys \<subseteq> set xs" for ys
    using that
  proof (induction ys)
    case Nil
    then show ?case by (simp add: array_sort_def)
  next
    case (Cons y ys)
    have sub: "set (array_sort cmp ys) \<subseteq> set xs" and y: "y \<in> set xs"
      using Cons.prems by (auto simp: set_array_sort)
    have "sorted_wrt (\<lambda>a b. cmp a b \<le> 0) (sort_insert cmp y (array_sort cmp ys))"
    proof (rule sorted_wrt_sort_insert)
      show "cmp y z \<le> 0 \<or> cmp z y \<le> 0" if "z \<in> set (array_sort cmp ys)" for z
        using consistent_total[OF assms y] sub that by blast
      show "cmp y w \<le> 0"
        if "z \<in> set (array_sort cmp ys)" "w \<in> set (array_sort cmp ys)" "cmp y z \<le> 0" "cmp z w \<le> 0"
        for z w
        using consistent_trans[OF assms y, of z w] sub that by blast
      show "sorted_wrt (\<lambda>a b. cmp a b \<le> 0) (array_sort cmp ys)"
        using Cons by simp
    qed
    then show ?case by (simp add: array_sort_def)
  qed
  then show ?thesis by simp
qed

lemma sorted_wrt_unique:
  assumes "sorted_wrt Q xs" "sorted_wrt Q ys" "mset xs = mset ys"
    and anti: "\<And>a b. a \<in> set xs \<Longrightarrow> b \<in> set xs \<Longrightarrow> Q a b \<Longrightarrow> Q b a \<Longrightarrow> a = b"
  shows "xs = ys"
  using assms
proof (induction xs arbitrary: ys)
  case Nil
  then show ?case by simp
next
  case (Cons x xs)
  then obtain y ys' where ys: "ys = y # ys'" by (cases ys) auto
  have sets: "set (x # xs) = set ys"
    using Cons.prems(3) by (metis mset_eq_setD)
  have "x = y"
  proof (rule ccontr)
    assume ne: "x \<noteq> y"
    with sets ys have "x \<in> set ys'" "y \<in> set xs" by auto
    with Cons.prems(1,2) ys have "Q y x" "Q x y" by auto
    moreover have "x \<in> set (x # xs)" "y \<in> set (x # xs)" using \<open>y \<in> set xs\<close> by auto
    ultimately have "x = y" using Cons.prems(4) by blast
    with ne show False by simp
  qed
  with Cons.prems ys have "xs = ys'"
    by (intro Cons.IH) auto
  with \<open>x = y\<close> ys show ?case by simp
qed

text \<open>The comparator with its arguments exchanged is consistent when the comparator is.\<close>

lemma consistent_flip:
  assumes c: "consistent_comparator cmp xs" and flip: "\<And>x y. cmp' x y = cmp y x"
  shows "consistent_comparator cmp' xs"
  unfolding consistent_comparator_def flip
proof (intro ballI conjI impI)
  fix a b d assume a: "a \<in> set xs" and b: "b \<in> set xs" and d: "d \<in> set xs"
  show "cmp a a = 0" by (rule consistent_comparatorD(1)[OF c a a a])
  show "cmp a b = 0" if "cmp b a = 0" using that by (rule consistent_comparatorD(2)[OF c b a a])
  show "cmp d a = 0" if "cmp b a = 0 \<and> cmp d b = 0"
    using that consistent_comparatorD(3)[OF c d b a] by simp
  show "cmp d a < 0" if "cmp b a < 0 \<and> cmp d b < 0"
    using that consistent_comparatorD(4)[OF c d b a] by simp
  show "0 < cmp d a" if "0 < cmp b a \<and> 0 < cmp d b"
    using that consistent_comparatorD(5)[OF c d b a] by simp
qed

lemma array_sort_reverse:
  assumes c: "consistent_comparator cmp xs" and n: "no_ties cmp xs"
    and flip: "\<And>x y. cmp' x y = cmp y x"
  shows "array_sort cmp' xs = rev (array_sort cmp xs)"
proof (rule sorted_wrt_unique)
  have "sorted_wrt (\<lambda>a b. cmp' a b \<le> 0) (array_sort cmp' xs)"
    by (rule sorted_wrt_array_sort) (rule consistent_flip[OF c flip])
  then show "sorted_wrt (\<lambda>a b. cmp b a \<le> 0) (array_sort cmp' xs)"
    by (simp add: flip)
  have "sorted_wrt (\<lambda>a b. cmp a b \<le> 0) (array_sort cmp xs)"
    by (rule sorted_wrt_array_sort) (rule c)
  then show "sorted_wrt (\<lambda>a b. cmp b a \<le> 0) (rev (array_sort cmp xs))"
    by (simp add: sorted_wrt_rev)
  show "mset (array_sort cmp' xs) = mset (rev (array_sort cmp xs))"
    by (simp add: mset_array_sort)
  fix a b
  assume "a \<in> set (array_sort cmp' xs)" "b \<in> set (array_sort cmp' xs)"
    and le: "cmp b a \<le> 0" "cmp a b \<le> 0"
  then have a: "a \<in> set xs" and b: "b \<in> set xs" by (simp_all add: set_array_sort)
  show "a = b"
  proof (rule ccontr)
    assume ne: "a \<noteq> b"
    with n a b have "cmp a b \<noteq> 0" by (simp add: no_ties_def)
    with le have "cmp a b < 0" by simp
    then have "0 < cmp b a" by (rule consistent_opposite(2)[OF c a b])
    with le show False by simp
  qed
qed

text \<open>
  A consistent comparator leaves ECMAScript no choice: the comparator's order on the
  entries is that of a rank, the number of entries strictly below, and every permutation
  of the array that is in the order of the ranks, with the entries of equal rank in their
  order in the array, is the result of the model.
\<close>

lemma sort_insert_insort_key:
  assumes "\<And>y. y \<in> set ys \<Longrightarrow> (cmp x y \<le> 0 \<longleftrightarrow> f x \<le> f y)"
  shows "sort_insert cmp x ys = insort_key f x ys"
  using assms by (induction ys) auto

lemma array_sort_sort_key:
  fixes f :: "'a \<Rightarrow> 'k :: linorder"
  assumes "\<And>x y. x \<in> set xs \<Longrightarrow> y \<in> set xs \<Longrightarrow> (cmp x y \<le> 0 \<longleftrightarrow> f x \<le> f y)"
  shows "array_sort cmp xs = sort_key f xs"
  using assms
proof (induction xs)
  case Nil
  then show ?case by (simp add: array_sort_def)
next
  case (Cons x xs)
  have "sort_insert cmp x (sort_key f xs) = insort_key f x (sort_key f xs)"
    by (rule sort_insert_insort_key) (use Cons.prems in auto)
  with Cons show ?case by (simp add: array_sort_def)
qed

lemma consistent_rank:
  assumes c: "consistent_comparator cmp xs" and a: "a \<in> set xs" and b: "b \<in> set xs"
  shows "cmp a b \<le> 0 \<longleftrightarrow> card {d \<in> set xs. cmp d a < 0} \<le> card {d \<in> set xs. cmp d b < 0}"
proof
  assume ab: "cmp a b \<le> 0"
  have "{d \<in> set xs. cmp d a < 0} \<subseteq> {d \<in> set xs. cmp d b < 0}"
  proof clarify
    fix d assume d: "d \<in> set xs" and da: "cmp d a < 0"
    show "cmp d b < 0"
    proof (rule ccontr)
      assume "\<not> cmp d b < 0"
      then have "cmp b d \<le> 0"
        using consistent_opposite(1)[OF c d b] consistent_comparatorD(2)[OF c d b b]
        by (cases "cmp d b = 0") auto
      with ab have "cmp a d \<le> 0" by (rule consistent_trans[OF c a b d])
      moreover from da have "0 < cmp a d" by (rule consistent_opposite(2)[OF c d a])
      ultimately show False by simp
    qed
  qed
  then show "card {d \<in> set xs. cmp d a < 0} \<le> card {d \<in> set xs. cmp d b < 0}"
    by (intro card_mono) auto
next
  assume le: "card {d \<in> set xs. cmp d a < 0} \<le> card {d \<in> set xs. cmp d b < 0}"
  show "cmp a b \<le> 0"
  proof (rule ccontr)
    assume "\<not> cmp a b \<le> 0"
    then have ab: "0 < cmp a b" by simp
    then have ba: "cmp b a < 0" by (rule consistent_opposite(1)[OF c a b])
    have "{d \<in> set xs. cmp d b < 0} \<subset> {d \<in> set xs. cmp d a < 0}"
    proof
      show "{d \<in> set xs. cmp d b < 0} \<subseteq> {d \<in> set xs. cmp d a < 0}"
        using consistent_comparatorD(4)[OF c _ b a] ba by blast
      have "b \<in> {d \<in> set xs. cmp d a < 0}" using b ba by simp
      moreover have "b \<notin> {d \<in> set xs. cmp d b < 0}"
        using consistent_comparatorD(1)[OF c b b b] by simp
      ultimately show "{d \<in> set xs. cmp d b < 0} \<noteq> {d \<in> set xs. cmp d a < 0}" by blast
    qed
    then have "card {d \<in> set xs. cmp d b < 0} < card {d \<in> set xs. cmp d a < 0}"
      by (intro psubset_card_mono) auto
    with le show False by simp
  qed
qed

lemma array_sort_determined:
  assumes c: "consistent_comparator cmp xs"
    and "mset ys = mset xs"
    and "sorted (map (\<lambda>a. card {d \<in> set xs. cmp d a < 0}) ys)"
    and "\<And>k. k \<in> set ys \<Longrightarrow>
           filter (\<lambda>x. card {d \<in> set xs. cmp d k < 0} = card {d \<in> set xs. cmp d x < 0}) ys =
           filter (\<lambda>x. card {d \<in> set xs. cmp d k < 0} = card {d \<in> set xs. cmp d x < 0}) xs"
  shows "array_sort cmp xs = ys"
proof -
  have "array_sort cmp xs = sort_key (\<lambda>a. card {d \<in> set xs. cmp d a < 0}) xs"
    by (rule array_sort_sort_key) (rule consistent_rank[OF c])
  also have "\<dots> = ys"
    using assms(2-4) by (intro properties_for_sort_key) auto
  finally show ?thesis .
qed

subsection \<open>The comparator\<close>

lemma compare_values_num:
  "compare_values rt asc (JNum x) (JNum y) = (if asc then sign_of (x - y) else sign_of (y - x))"
  by (simp add: compare_values_def)

lemma compare_values_text:
  assumes "\<not> is_num a \<or> \<not> is_num b"
  shows "compare_values rt asc a b =
     (if asc
      then (if text_key rt a < text_key rt b then - 1
            else if text_key rt b < text_key rt a then 1 else 0)
      else (if text_key rt b < text_key rt a then - 1
            else if text_key rt a < text_key rt b then 1 else 0))"
  using assms by (cases a; cases b) (simp_all add: compare_values_def is_num_def text_key_def Let_def)

lemma compare_values_flip: "compare_values rt (\<not> asc) a b = compare_values rt asc b a"
proof (cases "is_num a \<and> is_num b")
  case True
  then obtain x y where "a = JNum x" "b = JNum y"
    by (cases a; cases b) (simp_all add: is_num_def)
  then show ?thesis by (simp add: compare_values_num)
next
  case False
  then have "\<not> is_num a \<or> \<not> is_num b" "\<not> is_num b \<or> \<not> is_num a" by auto
  then show ?thesis by (simp add: compare_values_text)
qed

lemma compare_values_same: "compare_values rt asc v v = 0"
proof (cases "is_num v")
  case True
  then obtain x where "v = JNum x" by (cases v) (simp_all add: is_num_def)
  then show ?thesis by (simp add: compare_values_num sign_of_def)
next
  case False
  then show ?thesis by (simp add: compare_values_text)
qed

lemma compare_booths_flip:
  "compare_booths rt \<lparr>column = col, ascending = \<not> asc\<rparr> x y =
   compare_booths rt \<lparr>column = col, ascending = asc\<rparr> y x"
  using compare_values_flip[of rt asc] by (simp add: compare_booths_def)

text \<open>A comparator that orders by a key, in either direction, is consistent.\<close>

lemma key_comparator_consistent:
  fixes f :: "'a \<Rightarrow> 'k :: linorder"
  assumes "\<And>a b. a \<in> set xs \<Longrightarrow> b \<in> set xs \<Longrightarrow>
             cmp a b = (if f a < f b then - 1 else if f b < f a then 1 else 0)"
  shows "consistent_comparator cmp xs"
  unfolding consistent_comparator_def
proof (intro ballI)
  fix a b d assume "a \<in> set xs" "b \<in> set xs" "d \<in> set xs"
  then have "cmp a a = 0"
    and "cmp a b = (if f a < f b then - 1 else if f b < f a then 1 else 0)"
    and "cmp b a = (if f b < f a then - 1 else if f a < f b then 1 else 0)"
    and "cmp b d = (if f b < f d then - 1 else if f d < f b then 1 else 0)"
    and "cmp a d = (if f a < f d then - 1 else if f d < f a then 1 else 0)"
    by (simp_all add: assms)
  then show "cmp a a = 0 \<and> (cmp a b = 0 \<longrightarrow> cmp b a = 0) \<and>
        (cmp a b = 0 \<and> cmp b d = 0 \<longrightarrow> cmp a d = 0) \<and>
        (cmp a b < 0 \<and> cmp b d < 0 \<longrightarrow> cmp a d < 0) \<and>
        (0 < cmp a b \<and> 0 < cmp b d \<longrightarrow> 0 < cmp a d)"
    by (auto split: if_splits)
qed

lemma homogeneous_consistent:
  assumes h: "homogeneous col bs"
  shows "consistent_comparator (compare_booths rt \<lparr>column = col, ascending = asc\<rparr>) bs"
proof -
  have up: "consistent_comparator (compare_booths rt \<lparr>column = col, ascending = True\<rparr>) bs"
  proof -
    from h consider
      (nums) "\<forall>b \<in> set bs. is_num (field col b)" | (texts) "\<forall>b \<in> set bs. \<not> is_num (field col b)"
      by (auto simp: homogeneous_def)
    then show ?thesis
    proof cases
      case nums
      define f where "f b = (case field col b of JNum x \<Rightarrow> x | _ \<Rightarrow> 0)" for b
      have num: "field col b = JNum (f b)" if "b \<in> set bs" for b
        using nums that by (auto simp: f_def is_num_def split: jsval.splits)
      show ?thesis
        by (rule key_comparator_consistent[where f = f])
          (simp add: compare_booths_def num compare_values_num sign_of_def)
    next
      case texts
      show ?thesis
        by (rule key_comparator_consistent[where f = "\<lambda>b. text_key rt (field col b)"])
          (use texts in \<open>simp add: compare_booths_def compare_values_text\<close>)
    qed
  qed
  show ?thesis
  proof (cases asc)
    case True
    with up show ?thesis by simp
  next
    case False
    have "consistent_comparator (compare_booths rt \<lparr>column = col, ascending = \<not> True\<rparr>) bs"
      using up by (rule consistent_flip) (rule compare_booths_flip)
    with False show ?thesis by simp
  qed
qed

lemma inconsistent_order_is_the_engines:
  assumes "\<not> consistent_comparator (compare_booths rt (currentSort st)) (filteredBooths st)"
  shows "sorted_booths rt st =
         engine_order rt (compare_booths rt (currentSort st)) (filteredBooths st)"
  using assms by (simp add: sorted_booths_def js_sort_def)

text \<open>
  A column that mixes numbers and missing values need not give a consistent comparator.
  With the longitudes missing, - 5 and 0 in descending order, the missing one is above
  - 5 as a text, - 5 is above 0 as a number, and the missing one and 0 are the same text.
\<close>

lemma text_key_samples:
  "text_key sample_rt JUndefined = []"
  "text_key sample_rt (JNum 0) = []"
  "text_key sample_rt (JNum (- 5)) = [110]"
  by code_simp+

lemma mixed_column_not_consistent:
  "\<not> homogeneous ''lng'' mixed_booths \<and>
   \<not> consistent_comparator (compare_booths sample_rt \<lparr>column = ''lng'', ascending = False\<rparr>)
       mixed_booths"
proof
  have f: "field ''lng'' (booth0\<lparr>id' := 0\<rparr>) = JUndefined"
    "field ''lng'' (booth0\<lparr>id' := 1, lng := Some (- 5)\<rparr>) = JNum (- 5)"
    "field ''lng'' (booth0\<lparr>id' := 2, lng := Some 0\<rparr>) = JNum 0"
    by (simp_all add: field_def opt_num_def booth0_def)
  show "\<not> homogeneous ''lng'' mixed_booths"
    by (simp add: homogeneous_def mixed_booths_def f is_num_def)
  let ?cmp = "compare_booths sample_rt \<lparr>column = ''lng'', ascending = False\<rparr>"
  have above: "0 < ?cmp (booth0\<lparr>id' := 0\<rparr>) (booth0\<lparr>id' := 1, lng := Some (- 5)\<rparr>)"
    unfolding compare_booths_def sort_state.select_convs f
    by (simp add: compare_values_text is_num_def text_key_samples)
  have above': "0 < ?cmp (booth0\<lparr>id' := 1, lng := Some (- 5)\<rparr>) (booth0\<lparr>id' := 2, lng := Some 0\<rparr>)"
    unfolding compare_booths_def sort_state.select_convs f
    by (simp add: compare_values_num sign_of_def)
  have same: "?cmp (booth0\<lparr>id' := 0\<rparr>) (booth0\<lparr>id' := 2, lng := Some 0\<rparr>) = 0"
    unfolding compare_booths_def sort_state.select_convs f
    by (simp add: compare_values_text is_num_def text_key_samples)
  have m: "booth0\<lparr>id' := 0\<rparr> \<in> set mixed_booths"
    "booth0\<lparr>id' := 1, lng := Some (- 5)\<rparr> \<in> set mixed_booths"
    "booth0\<lparr>id' := 2, lng := Some 0\<rparr> \<in> set mixed_booths"
    by (simp_all add: mixed_booths_def)
  show "\<not> consistent_comparator ?cmp mixed_booths"
  proof
    assume c: "consistent_comparator ?cmp mixed_booths"
    have "0 < ?cmp (booth0\<lparr>id' := 0\<rparr>) (booth0\<lparr>id' := 2, lng := Some 0\<rparr>)"
      using c m above above' by (rule consistent_comparatorD(5))
    then show False unfolding same by simp
  qed
qed

text \<open>
  Claim C3, as amended. When the comparator of the table is a consistent ordering of the
  filtered booths, the sort is stable: the booths whose value in the sort column is a
  given value come out in their input order. When, in addition, no two of the booths
  compare as equal, a click on the header of the sort column, which flips the direction,
  yields exactly the reverse order. The comparator is a consistent ordering whenever the
  values of the column are all numbers or all not numbers. When the comparator is not
  consistent, the order is whatever the engine makes of it.
\<close>

theorem table_sort_stable_and_reversible:
  fixes rt :: env and st :: app_state
  defines "cmp \<equiv> compare_booths rt (currentSort st)"
    and "col \<equiv> column (currentSort st)"
    and "bs \<equiv> filteredBooths st"
  shows "(consistent_comparator cmp bs \<longrightarrow>
            filter (\<lambda>b. field col b = k) (sorted_booths rt st) = filter (\<lambda>b. field col b = k) bs) \<and>
         (consistent_comparator cmp bs \<and> no_ties cmp bs \<longrightarrow>
            sorted_booths rt (sort_click col st) = rev (sorted_booths rt st)) \<and>
         (homogeneous col bs \<longrightarrow> consistent_comparator cmp bs) \<and>
         (\<not> consistent_comparator cmp bs \<longrightarrow> sorted_booths rt st = engine_order rt cmp bs)"
proof (intro conjI impI)
  have srt: "currentSort st = \<lparr>column = col, ascending = ascending (currentSort st)\<rparr>"
    by (simp add: col_def)
  have clicked: "currentSort (sort_click col st) =
      \<lparr>column = col, ascending = \<not> ascending (currentSort st)\<rparr>"
    "filteredBooths (sort_click col st) = bs"
    by (simp_all add: sort_click_def col_def bs_def)
  have flip: "compare_booths rt (currentSort (sort_click col st)) x y = cmp y x" for x y
    unfolding clicked cmp_def by (subst (2) srt) (rule compare_booths_flip)
  {
    assume c: "consistent_comparator cmp bs"
    have "filter (\<lambda>b. field col b = k) (array_sort cmp bs) = filter (\<lambda>b. field col b = k) bs"
      by (rule array_sort_stable)
        (simp add: cmp_def col_def compare_booths_def compare_values_same)
    with c show "filter (\<lambda>b. field col b = k) (sorted_booths rt st) = filter (\<lambda>b. field col b = k) bs"
      by (simp add: sorted_booths_def js_sort_def cmp_def bs_def)
  }
  {
    assume "consistent_comparator cmp bs \<and> no_ties cmp bs"
    then have c: "consistent_comparator cmp bs" and n: "no_ties cmp bs" by simp_all
    have c': "consistent_comparator (compare_booths rt (currentSort (sort_click col st))) bs"
      using c by (rule consistent_flip) (rule flip)
    have "array_sort (compare_booths rt (currentSort (sort_click col st))) bs = rev (array_sort cmp bs)"
      using c n by (rule array_sort_reverse) (rule flip)
    with c c' show "sorted_booths rt (sort_click col st) = rev (sorted_booths rt st)"
      by (simp add: sorted_booths_def js_sort_def clicked(2)) (simp add: cmp_def bs_def)
  }
  {
    assume "homogeneous col bs"
    then have "consistent_comparator (compare_booths rt \<lparr>column = col, ascending = ascending (currentSort st)\<rparr>) bs"
      by (rule homogeneous_consistent)
    then show "consistent_comparator cmp bs"
      unfolding cmp_def by (subst srt)
  }
  {
    assume "\<not> consistent_comparator cmp bs"
    then show "sorted_booths rt st = engine_order rt cmp bs"
      unfolding cmp_def bs_def by (rule inconsistent_order_is_the_engines)
  }
qed

lemma toLowerCase_Avadi: "toLowerCase sample_rt ''Avadi'' = ''avadi''"
  by code_simp

lemma toLowerCase_avadi: "toLowerCase sample_rt ''avadi'' = ''avadi''"
  by code_simp

lemma sample_columns:
  "field ''booth_no'' booth_a = JNum 1" "field ''booth_no'' booth_b = JNum 2"
  "field ''village'' booth_a = JStr ''Avadi''" "field ''village'' booth_b = JStr ''avadi''"
  by (simp_all add: field_def booth_a_def booth_b_def booth0_def opt_str_def)

lemma sample_state_fields:
  "currentSort sample_state = \<lparr>column = ''booth_no'', ascending = True\<rparr>"
  "filteredBooths sample_state = [booth_a, booth_b]"
  "currentSort by_village = \<lparr>column = ''village'', ascending = True\<rparr>"
  "filteredBooths by_village = [booth_a, booth_b]"
  by (simp_all add: sample_state_def initial_state_def by_village_def)

lemma sample_booths_differ: "booth_a \<noteq> booth_b"
  by (simp add: booth_a_def booth_b_def booth0_def)

theorem table_sort_stable_and_reversible_witness:
  "homogeneous ''booth_no'' [booth_a, booth_b] \<and>
   consistent_comparator (compare_booths sample_rt (currentSort sample_state)) [booth_a, booth_b] \<and>
   no_ties (compare_booths sample_rt (currentSort sample_state)) [booth_a, booth_b] \<and>
   sorted_booths sample_rt sample_state = [booth_a, booth_b] \<and>
   filter (\<lambda>b. field ''booth_no'' b = JNum 1) (sorted_booths sample_rt sample_state) = [booth_a] \<and>
   sorted_booths sample_rt (sort_click ''booth_no'' sample_state) = [booth_b, booth_a] \<and>
   \<not> consistent_comparator (compare_booths sample_rt (currentSort by_longitude))
       (filteredBooths by_longitude) \<and>
   sorted_booths sample_rt by_longitude =
     engine_order sample_rt (compare_booths sample_rt (currentSort by_longitude)) mixed_booths"
proof -
  note inst = table_sort_stable_and_reversible[of sample_rt sample_state "JNum 1"]
  have nc: "\<not> consistent_comparator (compare_booths sample_rt (currentSort by_longitude))
       (filteredBooths by_longitude)"
    using mixed_column_not_consistent by (simp add: by_longitude_def)
  with table_sort_stable_and_reversible[of sample_rt by_longitude "JNum 0"]
  have e: "sorted_booths sample_rt by_longitude =
     engine_order sample_rt (compare_booths sample_rt (currentSort by_longitude)) mixed_booths"
    by (simp add: by_longitude_def)
  have h: "homogeneous ''booth_no'' [booth_a, booth_b]"
    by (simp add: homogeneous_def sample_columns is_num_def)
  with inst have c: "consistent_comparator (compare_booths sample_rt (currentSort sample_state))
      [booth_a, booth_b]"
    by (simp add: sample_state_fields)
  have n: "no_ties (compare_booths sample_rt (currentSort sample_state)) [booth_a, booth_b]"
    by (simp add: no_ties_def sample_booths_differ sample_state_fields compare_booths_def
        sample_columns compare_values_num sign_of_def)
  have s: "sorted_booths sample_rt sample_state = [booth_a, booth_b]"
    using c by (simp add: sorted_booths_def js_sort_def sample_state_fields array_sort_def
        compare_booths_def sample_columns compare_values_num sign_of_def)
  have f: "filter (\<lambda>b. field ''booth_no'' b = JNum 1) [booth_a, booth_b] = [booth_a]"
    by (simp add: sample_columns)
  from inst c n s f h nc e show ?thesis
    by (simp add: sample_state_fields)
qed

text \<open>
  As stated, with duplicate keys read as equal values of the column, the claim fails for
  two villages that differ only in case: the values are different, the comparator returns
  0 for them in both directions, and both directions give the input order.
\<close>

theorem case_variants_not_reversed:
  "field ''village'' booth_a \<noteq> field ''village'' booth_b \<and>
   sorted_booths sample_rt by_village = [booth_a, booth_b] \<and>
   sorted_booths sample_rt (sort_click ''village'' by_village) = [booth_a, booth_b] \<and>
   rev [booth_a, booth_b] \<noteq> [booth_a, booth_b]"
proof -
  have t: "compare_values sample_rt asc (JStr ''Avadi'') (JStr ''avadi'') = 0" for asc
    by (simp add: compare_values_def string_or_empty_def toLowerCase_Avadi toLowerCase_avadi)
  have c: "currentSort (sort_click ''village'' by_village) = \<lparr>column = ''village'', ascending = False\<rparr>"
    "filteredBooths (sort_click ''village'' by_village) = [booth_a, booth_b]"
    by (simp_all add: sort_click_def sample_state_fields)
  have h: "homogeneous ''village'' [booth_a, booth_b]"
    by (simp add: homogeneous_def sample_columns is_num_def)
  note k = homogeneous_consistent[OF h, of sample_rt]
  show ?thesis
    using sample_booths_differ
    by (simp add: sorted_booths_def js_sort_def k sample_state_fields c array_sort_def
        compare_booths_def sample_columns t)
qed

end
